theory Spec2Isabelle
  imports Complex_Main
begin

section \<open>SmartCampus Teachable Machine scanners\<close>

text \<open>
  A shallow embedding of the scanner script: the class \<^verbatim>\<open>TMScanner\<close> (its
  \<^verbatim>\<open>start\<close>, \<^verbatim>\<open>stop\<close> and per-frame \<^verbatim>\<open>loop\<close>), the helper
  \<^verbatim>\<open>normalizeName\<close>, and the click handlers and lock callbacks that
  \<^verbatim>\<open>startDemoFlow\<close> installs.

  Conventions of the model.
  \<^item> JavaScript numbers (probabilities, \<^verbatim>\<open>performance.now()\<close>) are IEEE doubles; the
    model takes their values as reals. Comparisons of doubles are exact, and the sign of
    a difference of two doubles is the sign of the exact difference, so the sort and the
    threshold tests are modelled on reals. The one difference whose value matters,
    \<^verbatim>\<open>now - this.lastTop.since\<close>, is rounded by the runtime: the model does not define
    the rounding but takes the value of that difference as an input of the cycle
    (\<open>elapsedSince\<close>), so what is proved holds whatever the rounding is. \<^verbatim>\<open>NaN\<close> is
    outside the model.
  \<^item> Strings are ASCII character lists: \<^verbatim>\<open>toLowerCase\<close> maps \<^verbatim>\<open>A-Z\<close> to \<^verbatim>\<open>a-z\<close>,
    \<^verbatim>\<open>toUpperCase\<close> maps \<^verbatim>\<open>a-z\<close> to \<^verbatim>\<open>A-Z\<close>, and \<^verbatim>\<open>\s\<close> is tab, line feed, vertical
    tab, form feed, carriage return and space. Letters and whitespace beyond ASCII are
    outside the model. Characters that are not ASCII in the messages of the script (the
    ellipsis, the pictographs) are left out or written in ASCII.
  \<^item> A thrown exception is a result value that carries the state reached at the throw,
    since assignments made before the throw persist.
  \<^item> The outcome of each awaited call is an input. \<^verbatim>\<open>start\<close> and \<^verbatim>\<open>loop\<close> are each
    the composition of the part before their \<^verbatim>\<open>await\<close> and the part that resumes after
    it (\<open>afterCamera\<close>, \<open>afterPredict\<close>), so that what another call does while one of
    them is suspended can be stated; neither re-tests \<^verbatim>\<open>isRunning\<close> when it resumes.
    The handlers of the demo flow are taken with each \<^verbatim>\<open>start\<close> they call run to its end.
  \<^item> The DOM elements the script looks up are taken to exist; what it writes to them is
    recorded as a trace of user-interface events.
\<close>

subsection \<open>normalizeName\<close>

text \<open>
  \<^verbatim>\<open>function normalizeName(s){ return (s || '').trim().toLowerCase().replace(/\s+/g, ' '); }\<close>
  On a string, \<^verbatim>\<open>s || ''\<close> is \<^verbatim>\<open>s\<close> (the only falsy string is the empty one).
\<close>

definition isSpace :: "char \<Rightarrow> bool" where
  "isSpace c = (c \<in> {CHR 0x09, CHR 0x0A, CHR 0x0B, CHR 0x0C, CHR 0x0D, CHR '' ''})"

definition toLowerChar :: "char \<Rightarrow> char" where
  "toLowerChar c =
     (case map_of (zip ''ABCDEFGHIJKLMNOPQRSTUVWXYZ'' ''abcdefghijklmnopqrstuvwxyz'') c of
        None \<Rightarrow> c
      | Some l \<Rightarrow> l)"

definition toLowerCase :: "string \<Rightarrow> string" where
  "toLowerCase s = map toLowerChar s"

definition trim :: "string \<Rightarrow> string" where
  "trim s = rev (dropWhile isSpace (rev (dropWhile isSpace s)))"

text \<open>\<^verbatim>\<open>.replace(/\s+/g, ' ')\<close>: every maximal run of whitespace becomes one space.\<close>

function collapseSpaces :: "string \<Rightarrow> string" where
  "collapseSpaces [] = []"
| "collapseSpaces (c # cs) =
     (if isSpace c then CHR '' '' # collapseSpaces (dropWhile isSpace cs)
      else c # collapseSpaces cs)"
  by pat_completeness auto
termination
  by (relation "measure length") (auto simp: le_imp_less_Suc length_dropWhile_le)

definition normalizeName :: "string \<Rightarrow> string" where
  "normalizeName s = collapseSpaces (toLowerCase (trim s))"

subsection \<open>Data of the scanner\<close>

datatype js_error =
    TypeError
  | ModelLoadError
  | NotAllowedError
  | NotFoundError
  | CameraError
  | InferenceError

text \<open>One entry of the array that \<^verbatim>\<open>model.predict\<close> resolves to.\<close>

record prediction =
  className :: string
  probability :: real

text \<open>\<^verbatim>\<open>this.lastTop = { name, since, prob }\<close>\<close>

record top_entry =
  name :: string
  since :: real
  prob :: real

text \<open>\<^verbatim>\<open>lockInfo = { className, prob, timestamp }\<close>, the argument of \<^verbatim>\<open>onLock\<close>.\<close>

datatype lockInfo = LockInfo (lockClassName: string) (lockProb: real) (lockTimestamp: int)

datatype facing = User | Environment

datatype model_handle = ModelHandle string

text \<open>
  The \<^verbatim>\<open>tmImage.Webcam\<close> object. The library is not part of the repository; the model
  keeps what the scanner depends on: whether the camera stream is held, and whether
  this object's \<^verbatim>\<open>stop()\<close> raises (which \<^verbatim>\<open>TMScanner.stop\<close> catches).
\<close>

record webcam_obj =
  held :: bool
  stopThrows :: bool

definition webcam_stop :: "webcam_obj \<Rightarrow> js_error + webcam_obj" where
  "webcam_stop w = (if stopThrows w then Inl CameraError else Inr (w\<lparr>held := False\<rparr>))"

text \<open>What the scanner writes to its overlays and to the console.\<close>

datatype ui_event =
    Note string
  | ErrorNote string
  | ConsoleError string
  | TopOverlay string real
  | PredList "(string \<times> real) list"
  | FreezeOverlay string

text \<open>
  The fields of a \<^verbatim>\<open>TMScanner\<close>, followed by the part of the browser that belongs to it:
  the animation-frame callbacks it has requested and that have not run yet
  (\<open>rafPending\<close>, oldest first), the last handle the browser gave out (\<open>rafCounter\<close>;
  handles are positive), and the trace of what it showed.
\<close>

record TMScanner =
  modelPath :: string
  facingMode :: facing
  model :: "model_handle option"
  predLoopId :: "nat option"
  webcam :: "webcam_obj option"
  isRunning :: bool
  threshold :: real
  stableWindowMs :: real
  lastTop :: "top_entry option"
  locked :: bool
  rafPending :: "nat list"
  rafCounter :: nat
  trace :: "ui_event list"

record scanner_cfg =
  cfgModelPath :: string
  cfgFacingMode :: "facing option"

text \<open>The constructor: \<^verbatim>\<open>cfg.facingMode || 'user'\<close>, threshold 0.98, window 1000 ms.\<close>

definition newTMScanner :: "scanner_cfg \<Rightarrow> TMScanner" where
  "newTMScanner cfg =
     \<lparr> modelPath = cfgModelPath cfg,
       facingMode = (case cfgFacingMode cfg of None \<Rightarrow> User | Some m \<Rightarrow> m),
       model = None,
       predLoopId = None,
       webcam = None,
       isRunning = False,
       threshold = 98 / 100,
       stableWindowMs = 1000,
       lastTop = None,
       locked = False,
       rafPending = [],
       rafCounter = 0,
       trace = [] \<rparr>"

text \<open>\<^verbatim>\<open>note\<close> and \<^verbatim>\<open>error\<close> of the class (\<open>note\<close> is an Isar keyword).\<close>

definition tm_note :: "string \<Rightarrow> TMScanner \<Rightarrow> TMScanner" where
  "tm_note msg s = s\<lparr>trace := trace s @ [Note msg]\<rparr>"

definition tm_error :: "string \<Rightarrow> TMScanner \<Rightarrow> TMScanner" where
  "tm_error msg s = s\<lparr>trace := trace s @ [ErrorNote msg]\<rparr>"

definition consoleError :: "string \<Rightarrow> TMScanner \<Rightarrow> TMScanner" where
  "consoleError msg s = s\<lparr>trace := trace s @ [ConsoleError msg]\<rparr>"

definition freezeOverlay :: "string \<Rightarrow> TMScanner \<Rightarrow> TMScanner" where
  "freezeOverlay message s = s\<lparr>trace := trace s @ [FreezeOverlay message]\<rparr>"

subsection \<open>The browser's animation frames\<close>

text \<open>\<^verbatim>\<open>this.predLoopId = requestAnimationFrame(() => this.loop())\<close>\<close>

definition requestAnimationFrame :: "TMScanner \<Rightarrow> TMScanner" where
  "requestAnimationFrame s =
     (let h = Suc (rafCounter s)
      in s\<lparr>rafCounter := h, rafPending := rafPending s @ [h], predLoopId := Some h\<rparr>)"

definition cancelAnimationFrame :: "nat \<Rightarrow> TMScanner \<Rightarrow> TMScanner" where
  "cancelAnimationFrame h s = s\<lparr>rafPending := removeAll h (rafPending s)\<rparr>"

subsection \<open>stop\<close>

text \<open>
  \<^verbatim>\<open>
  stop() {
    this.isRunning = false;
    if (this.predLoopId) cancelAnimationFrame(this.predLoopId);
    if (this.webcam) { try { this.webcam.stop(); } catch (e) {} }
  }\<close>
  The result type has a branch for an exception leaving \<^verbatim>\<open>stop\<close>; the number 0 is falsy.
\<close>

definition stop :: "TMScanner \<Rightarrow> js_error + TMScanner" where
  "stop s =
     (let s1 = s\<lparr>isRunning := False\<rparr>;
          s2 = (case predLoopId s1 of
                  None \<Rightarrow> s1
                | Some h \<Rightarrow> if h \<noteq> 0 then cancelAnimationFrame h s1 else s1)
      in case webcam s2 of
           None \<Rightarrow> Inr s2
         | Some w \<Rightarrow>
             (case webcam_stop w of
                Inl e \<Rightarrow> Inr s2
              | Inr w' \<Rightarrow> Inr (s2\<lparr>webcam := Some w'\<rparr>)))"

subsection \<open>The per-frame cycle\<close>

text \<open>
  What one invocation of \<^verbatim>\<open>loop\<close> reads from outside the scanner: the outcome of
  \<^verbatim>\<open>await this.model.predict(...)\<close> (\<open>None\<close> when the promise rejects),
  \<^verbatim>\<open>performance.now()\<close>, \<^verbatim>\<open>new Date()\<close>, and the value \<open>elapsedSince t\<close> that the
  runtime's double arithmetic gives to \<^verbatim>\<open>now - t\<close> in this cycle.
\<close>

record frame =
  predict :: "prediction list option"
  now :: real
  date :: int
  elapsedSince :: "real \<Rightarrow> real"

text \<open>
  How one invocation of \<^verbatim>\<open>loop\<close> ends: at its first line because the scanner is not
  running; in the \<^verbatim>\<open>catch\<close> of the prediction; by requesting the next animation frame;
  by calling \<^verbatim>\<open>onLock\<close>; or with an exception (the promise of the \<^verbatim>\<open>async\<close> function
  rejects).
\<close>

datatype loop_end =
    NotRunning
  | PredictFailed
  | Continue
  | Lock lockInfo
  | Threw js_error

text \<open>
  \<^verbatim>\<open>preds.sort((a, b) => b.probability - a.probability)\<close>: descending by probability;
  the sort of an array is stable, and so is \<open>sort_key\<close>.
\<close>

definition sortPreds :: "prediction list \<Rightarrow> prediction list" where
  "sortPreds preds = sort_key (\<lambda>p. - probability p) preds"

text \<open>
  \<^verbatim>\<open>
  const now = performance.now();
  if (!this.lastTop || this.lastTop.name !== topName || topProb < this.threshold) {
    if (topProb >= this.threshold) this.lastTop = { name: topName, since: now, prob: topProb };
    else this.lastTop = null;
  } else {
    if (now - this.lastTop.since >= this.stableWindowMs) {
      this.locked = true;
      this.stop();
      this.freezeOverlay(topName);
      this.onLock({ className: topName, prob: topProb, timestamp: new Date() });
      return;
    }
  }
  this.predLoopId = requestAnimationFrame(() => this.loop());\<close>
\<close>

definition restartStreak :: "TMScanner \<Rightarrow> string \<Rightarrow> real \<Rightarrow> frame \<Rightarrow> TMScanner" where
  "restartStreak s topName topProb f =
     (if topProb \<ge> threshold s
      then s\<lparr>lastTop := Some \<lparr>name = topName, since = now f, prob = topProb\<rparr>\<rparr>
      else s\<lparr>lastTop := None\<rparr>)"

definition lockNow :: "TMScanner \<Rightarrow> string \<Rightarrow> real \<Rightarrow> frame \<Rightarrow> loop_end \<times> TMScanner" where
  "lockNow s topName topProb f =
     (case stop (s\<lparr>locked := True\<rparr>) of
        Inl e \<Rightarrow> (Threw e, s\<lparr>locked := True\<rparr>)
      | Inr s1 \<Rightarrow> (Lock (LockInfo topName topProb (date f)), freezeOverlay topName s1))"

definition stability :: "TMScanner \<Rightarrow> string \<Rightarrow> real \<Rightarrow> frame \<Rightarrow> loop_end \<times> TMScanner" where
  "stability s topName topProb f =
     (case lastTop s of
        None \<Rightarrow> (Continue, requestAnimationFrame (restartStreak s topName topProb f))
      | Some lt \<Rightarrow>
          if name lt \<noteq> topName \<or> topProb < threshold s
          then (Continue, requestAnimationFrame (restartStreak s topName topProb f))
          else if elapsedSince f (since lt) \<ge> stableWindowMs s
          then lockNow s topName topProb f
          else (Continue, requestAnimationFrame s))"

text \<open>The two overlays: the top class, and the first \<^verbatim>\<open>Math.min(3, preds.length)\<close> entries.\<close>

definition overlays :: "prediction list \<Rightarrow> TMScanner \<Rightarrow> TMScanner" where
  "overlays ranked s =
     (case ranked of
        [] \<Rightarrow> s
      | top1 # _ \<Rightarrow>
          s\<lparr>trace := trace s @
              [TopOverlay (className top1) (probability top1),
               PredList (map (\<lambda>p. (className p, probability p)) (take 3 ranked))]\<rparr>)"

text \<open>
  \<^verbatim>\<open>
  async loop() {
    if (!this.isRunning) return;
    this.webcam.update();
    ...
    let preds;
    try { preds = await this.model.predict(this.webcam.canvas); }
    catch (e) { this.error('Prediction failed (see console).'); console.error('Predict error:', e); return; }
    preds.sort(...);
    const top = preds[0];
    const topName = top.className;
    const topProb = top.probability;
    ...\<close>
  Reading \<^verbatim>\<open>update\<close> of a null \<^verbatim>\<open>webcam\<close>, or \<^verbatim>\<open>className\<close> of \<^verbatim>\<open>preds[0]\<close> when the
  array is empty (\<^verbatim>\<open>undefined\<close>), raises a \<^verbatim>\<open>TypeError\<close>. \<open>afterPredict\<close> is the part of
  \<^verbatim>\<open>loop\<close> that runs when the awaited prediction has settled.
\<close>

definition afterPredict :: "TMScanner \<Rightarrow> frame \<Rightarrow> loop_end \<times> TMScanner" where
  "afterPredict s f =
     (case predict f of
        None \<Rightarrow>
          (PredictFailed,
           consoleError ''Predict error:'' (tm_error ''Prediction failed (see console).'' s))
      | Some preds \<Rightarrow>
          (case sortPreds preds of
             [] \<Rightarrow> (Threw TypeError, s)
           | top1 # rest \<Rightarrow>
               stability (overlays (top1 # rest) s) (className top1) (probability top1) f))"

definition loop :: "TMScanner \<Rightarrow> frame \<Rightarrow> loop_end \<times> TMScanner" where
  "loop s f =
     (if \<not> isRunning s then (NotRunning, s)
      else case webcam s of
        None \<Rightarrow> (Threw TypeError, s)
      | Some w \<Rightarrow> afterPredict s f)"

subsection \<open>start\<close>

text \<open>
  What \<^verbatim>\<open>start\<close> reads from outside: whether \<^verbatim>\<open>tmImage.load\<close> resolves, what
  \<^verbatim>\<open>webcam.setup\<close> or \<^verbatim>\<open>webcam.play\<close> rejects with (if either does), whether the new
  camera object's \<^verbatim>\<open>stop()\<close> will raise, and the frame of the first \<^verbatim>\<open>loop\<close> call.
\<close>

record start_env =
  loadOk :: bool
  cameraError :: "js_error option"
  camStopThrows :: bool
  firstFrame :: frame

text \<open>
  \<^verbatim>\<open>loadModel\<close>: on failure it reports, logs and throws the exception again. (The
  ellipsis character of the messages is written as three dots.)
\<close>

definition loadModel :: "TMScanner \<Rightarrow> start_env \<Rightarrow> (js_error \<times> TMScanner) + TMScanner" where
  "loadModel s env =
     (let s1 = tm_note ''Loading model...'' s
      in if loadOk env
         then Inr (tm_note ''Model ready'' (s1\<lparr>model := Some (ModelHandle (modelPath s1))\<rparr>))
         else Inl (ModelLoadError,
                   consoleError ''TMScanner model load error:''
                     (tm_error (''Model load failed ('' @ modelPath s1 @ ''). Check path & server.'')
                        s1)))"

datatype start_end = Started loop_end | StartFailed js_error

text \<open>The \<^verbatim>\<open>catch\<close> of \<^verbatim>\<open>start\<close>: it reports and throws the exception again.\<close>

definition startCatch :: "js_error \<Rightarrow> TMScanner \<Rightarrow> start_end \<times> TMScanner" where
  "startCatch e s =
     (StartFailed e,
      consoleError ''TMScanner start error:''
        (if e = NotAllowedError \<or> e = NotFoundError
         then tm_error ''Camera blocked or not found. Allow camera & refresh.'' s
         else tm_error ''Failed to start camera. Use http(s) and check permissions.'' s))"

text \<open>
  \<open>beginCamera\<close> is \<^verbatim>\<open>start\<close> from the creation of the camera object to the
  \<^verbatim>\<open>await\<close> of \<^verbatim>\<open>webcam.setup\<close>; \<open>afterCamera\<close> is the part that resumes when
  \<^verbatim>\<open>setup\<close> and \<^verbatim>\<open>play\<close> have settled.
\<close>

definition beginCamera :: "TMScanner \<Rightarrow> start_env \<Rightarrow> TMScanner" where
  "beginCamera s env =
     tm_note ''Requesting camera...''
       (s\<lparr>webcam := Some \<lparr>held = False, stopThrows = camStopThrows env\<rparr>\<rparr>)"

definition afterCamera :: "TMScanner \<Rightarrow> start_env \<Rightarrow> start_end \<times> TMScanner" where
  "afterCamera s1 env =
     (case cameraError env of
        Some e \<Rightarrow> startCatch e s1
      | None \<Rightarrow>
          (let s2 = tm_note ''Scanning...''
                      (s1\<lparr>webcam := Some \<lparr>held = True, stopThrows = camStopThrows env\<rparr>,
                          isRunning := True, locked := False, lastTop := None\<rparr>);
               (d, s3) = loop s2 (firstFrame env)
           in (Started d, s3)))"

definition openCamera :: "TMScanner \<Rightarrow> start_env \<Rightarrow> start_end \<times> TMScanner" where
  "openCamera s env = afterCamera (beginCamera s env) env"

definition start :: "TMScanner \<Rightarrow> start_env \<Rightarrow> start_end \<times> TMScanner" where
  "start s env =
     (case model s of
        Some m \<Rightarrow> openCamera s env
      | None \<Rightarrow>
          (case loadModel s env of
             Inl (e, s1) \<Rightarrow> startCatch e s1
           | Inr s1 \<Rightarrow> openCamera s1 env))"

subsection \<open>A run of the scanner\<close>

text \<open>
  The browser runs the oldest pending animation-frame callback, which calls \<^verbatim>\<open>loop\<close>;
  when none is pending, no further cycle runs. The result lists how each cycle ended.
\<close>

fun drive :: "TMScanner \<Rightarrow> frame list \<Rightarrow> loop_end list \<times> TMScanner" where
  "drive s [] = ([], s)"
| "drive s (f # fs) =
     (case rafPending s of
        [] \<Rightarrow> ([], s)
      | h # hs \<Rightarrow>
          (let (d, s1) = loop (s\<lparr>rafPending := hs\<rparr>) f;
               (ds, s2) = drive s1 fs
           in (d # ds, s2)))"

text \<open>\<^verbatim>\<open>start()\<close>, whose last statement is the first \<^verbatim>\<open>loop\<close> call, then the later frames.\<close>

definition session :: "TMScanner \<Rightarrow> start_env \<Rightarrow> frame list \<Rightarrow> loop_end list \<times> TMScanner" where
  "session s env fs =
     (case start s env of
        (StartFailed e, s1) \<Rightarrow> ([], s1)
      | (Started d, s1) \<Rightarrow> (let (ds, s2) = drive s1 fs in (d # ds, s2)))"

subsection \<open>Reading a stream of frames\<close>

text \<open>
  The ranking of the entries of a prediction array, stated without the sort: entry \<open>i\<close>
  is ranked first when no entry has a higher probability and every entry before it has
  a strictly lower one (descending by probability, ties in the order of the model's
  output).
\<close>

definition rankedFirst :: "prediction list \<Rightarrow> nat \<Rightarrow> bool" where
  "rankedFirst preds i =
     (i < length preds \<and>
      (\<forall>j < length preds. probability (preds ! j) \<le> probability (preds ! i)) \<and>
      (\<forall>j < i. probability (preds ! j) < probability (preds ! i)))"

text \<open>The top-ranked entry of the frame has label \<open>l\<close> and probability at least \<open>thr\<close>.\<close>

definition qualifies :: "real \<Rightarrow> string \<Rightarrow> frame \<Rightarrow> bool" where
  "qualifies thr l f =
     (case predict f of
        None \<Rightarrow> False
      | Some preds \<Rightarrow>
          (\<exists>i < length preds. rankedFirst preds i \<and> className (preds ! i) = l
              \<and> thr \<le> probability (preds ! i)))"

text \<open>The top-ranked entry of the frame has label \<open>l\<close>.\<close>

definition hasTopLabel :: "frame \<Rightarrow> string \<Rightarrow> bool" where
  "hasTopLabel f l =
     (case predict f of
        None \<Rightarrow> False
      | Some preds \<Rightarrow> (\<exists>i < length preds. rankedFirst preds i \<and> className (preds ! i) = l))"

text \<open>
  The top entry of a frame as \<^verbatim>\<open>loop\<close> computes it (\<^verbatim>\<open>preds[0]\<close> after the sort); there
  is none when the prediction fails or the array is empty.
\<close>

definition topPrediction :: "frame \<Rightarrow> prediction option" where
  "topPrediction f =
     (case predict f of
        None \<Rightarrow> None
      | Some preds \<Rightarrow> (case sortPreds preds of [] \<Rightarrow> None | top1 # _ \<Rightarrow> Some top1))"

definition isLock :: "loop_end \<Rightarrow> bool" where
  "isLock d = (case d of Lock _ \<Rightarrow> True | _ \<Rightarrow> False)"



subsection \<open>Example inputs\<close>

definition exCfg :: scanner_cfg where
  "exCfg = \<lparr>cfgModelPath = ''./tm_model/'', cfgFacingMode = Some User\<rparr>"

text \<open>A frame whose prediction array has the single entry \<open>(l, p)\<close>, at time \<open>t\<close>.\<close>

definition oneClass :: "string \<Rightarrow> real \<Rightarrow> real \<Rightarrow> frame" where
  "oneClass l p t =
     \<lparr>predict = Some [\<lparr>className = l, probability = p\<rparr>], now = t, date = 0,
      elapsedSince = (\<lambda>t0. t - t0)\<rparr>"

text \<open>
  A frame whose prediction array is \<open>(a, pa)\<close>, \<open>(b, pb)\<close> in the order of the model's
  output, at time \<open>t\<close>. The times of the examples are whole milliseconds, whose
  differences are exact in double arithmetic.
\<close>

definition twoClass :: "string \<Rightarrow> real \<Rightarrow> string \<Rightarrow> real \<Rightarrow> real \<Rightarrow> frame" where
  "twoClass a pa b pb t =
     \<lparr>predict = Some [\<lparr>className = a, probability = pa\<rparr>, \<lparr>className = b, probability = pb\<rparr>],
      now = t, date = 0, elapsedSince = (\<lambda>t0. t - t0)\<rparr>"

text \<open>A frame whose prediction fails, and one whose prediction array is empty.\<close>

definition failedFrame :: "real \<Rightarrow> frame" where
  "failedFrame t = \<lparr>predict = None, now = t, date = 0, elapsedSince = (\<lambda>t0. t - t0)\<rparr>"

definition emptyFrame :: "real \<Rightarrow> frame" where
  "emptyFrame t = \<lparr>predict = Some [], now = t, date = 0, elapsedSince = (\<lambda>t0. t - t0)\<rparr>"

text \<open>A start at which the model loads and the camera opens.\<close>

definition exEnv :: "frame \<Rightarrow> start_env" where
  "exEnv f = \<lparr>loadOk = True, cameraError = None, camStopThrows = False, firstFrame = f\<rparr>"

text \<open>A scanner whose model is loaded, not started yet.\<close>

definition exLoaded :: TMScanner where
  "exLoaded = (newTMScanner exCfg)\<lparr>model := Some (ModelHandle ''./tm_model/'')\<rparr>"

text \<open>A scanner as \<^verbatim>\<open>start\<close> leaves it before its first cycle, with window \<open>w\<close>.\<close>

definition exRunning :: "real \<Rightarrow> TMScanner" where
  "exRunning w =
     (newTMScanner exCfg)
       \<lparr>model := Some (ModelHandle ''./tm_model/''),
        webcam := Some \<lparr>held = True, stopThrows = False\<rparr>,
        isRunning := True, stableWindowMs := w\<rparr>"


text \<open>The scanner after a start, one good frame, and a frame whose prediction failed.\<close>

definition exAfterFailure :: TMScanner where
  "exAfterFailure =
     (newTMScanner exCfg)
       \<lparr>model := Some (ModelHandle ''./tm_model/''),
        predLoopId := Some 1,
        webcam := Some \<lparr>held = True, stopThrows = False\<rparr>,
        isRunning := True,
        lastTop := Some \<lparr>name = ''cat'', since = 0, prob = 99/100\<rparr>,
        rafCounter := 1,
        trace := [Note ''Loading model...'', Note ''Model ready'', Note ''Requesting camera...'',
                  Note ''Scanning...'',
                  TopOverlay ''cat'' (99/100), PredList [(''cat'', 99/100)],
                  ErrorNote ''Prediction failed (see console).'',
                  ConsoleError ''Predict error:'']\<rparr>"

subsection \<open>The demo flow: face, then ID, then verify\<close>

text \<open>
  The module-level variables \<^verbatim>\<open>demoFaceScanner\<close>, \<^verbatim>\<open>demoIdScanner\<close>,
  \<^verbatim>\<open>lockedFace\<close> and \<^verbatim>\<open>lockedId\<close>, followed by what the handlers write to the page:
  the view made active by \<^verbatim>\<open>show\<close>, the three step badges, the status line, the
  visibility of the two scan-again buttons, the alerts, the title and the text of the
  verified view and the log. \<open>handlersInstalled\<close> records that \<^verbatim>\<open>startDemoFlow\<close> has assigned the
  \<^verbatim>\<open>onclick\<close> handlers of the demo view.
\<close>

datatype view = ViewHome | ViewDemo | ViewSoloFace | ViewSoloId | ViewVerified

datatype badge = Pending | Active | Done

record demo =
  demoFaceScanner :: "TMScanner option"
  demoIdScanner :: "TMScanner option"
  lockedFace :: "lockInfo option"
  lockedId :: "lockInfo option"
  activeView :: view
  badgeFace :: badge
  badgeId :: badge
  badgeVerify :: badge
  verifyStatus :: string
  faceScanAgainShown :: bool
  idScanAgainShown :: bool
  handlersInstalled :: bool
  alerts :: "string list"
  verifiedTitle :: string
  verifiedText :: "string option"
  logs :: "string list"

text \<open>A handler returns, or an exception leaves it with the assignments made so far.\<close>

datatype outcome = Returned demo | Raised js_error demo

fun stateOf :: "outcome \<Rightarrow> demo" where
  "stateOf (Returned d) = d"
| "stateOf (Raised e d) = d"

text \<open>
  \<^verbatim>\<open>addLog\<close> puts the entry in front of the log and, when the log then has more than 10
  entries, removes the last one. The time stamp and the type of the entry are left out.
\<close>

definition addLog :: "string \<Rightarrow> demo \<Rightarrow> demo" where
  "addLog message d =
     (let entries = message # logs d
      in d\<lparr>logs := (if length entries > 10 then butlast entries else entries)\<rparr>)"

text \<open>
  \<^verbatim>\<open>
  function escapeHtml(s){
    return String(s).replaceAll('&','&amp;').replaceAll('<','&lt;')
      .replaceAll('>','&gt;').replaceAll('"','&quot;').replaceAll("'",'&#039;');
  }\<close>
\<close>

definition replaceAll :: "char \<Rightarrow> string \<Rightarrow> string \<Rightarrow> string" where
  "replaceAll c r s = concat (map (\<lambda>x. if x = c then r else [x]) s)"

definition escapeHtml :: "string \<Rightarrow> string" where
  "escapeHtml s =
     replaceAll (CHR 0x27) ''&#039;''
       (replaceAll (CHR 0x22) ''&quot;''
          (replaceAll CHR ''>'' ''&gt;''
             (replaceAll CHR ''<'' ''&lt;''
                (replaceAll CHR ''&'' ''&amp;'' s))))"

definition toUpperChar :: "char \<Rightarrow> char" where
  "toUpperChar c =
     (case map_of (zip ''abcdefghijklmnopqrstuvwxyz'' ''ABCDEFGHIJKLMNOPQRSTUVWXYZ'') c of
        None \<Rightarrow> c
      | Some u \<Rightarrow> u)"

definition toUpperCase :: "string \<Rightarrow> string" where
  "toUpperCase s = map toUpperChar s"

definition faceCfg :: scanner_cfg where
  "faceCfg = \<lparr>cfgModelPath = ''./tm_model/'', cfgFacingMode = Some User\<rparr>"

definition idCfg :: scanner_cfg where
  "idCfg = \<lparr>cfgModelPath = ''./id_model/'', cfgFacingMode = Some Environment\<rparr>"

text \<open>\<^verbatim>\<open>function safeStop(scanner){ if(scanner) try{ scanner.stop(); }catch(e){} }\<close>\<close>

definition safeStop :: "TMScanner option \<Rightarrow> TMScanner option" where
  "safeStop scanner =
     (case scanner of
        None \<Rightarrow> None
      | Some sc \<Rightarrow> (case stop sc of Inl e \<Rightarrow> Some sc | Inr sc' \<Rightarrow> Some sc'))"

text \<open>
  \<^verbatim>\<open>scanner.start()\<close> as the handlers call it: the promise is not awaited, so a
  rejection does not reach the handler; the scanner is left as \<^verbatim>\<open>start\<close> leaves it.
\<close>

definition started :: "TMScanner \<Rightarrow> start_env \<Rightarrow> TMScanner" where
  "started sc env = snd (start sc env)"

text \<open>
  \<^verbatim>\<open>
  function goVerified(name) {
    safeStop(demoFaceScanner);
    safeStop(demoIdScanner);
    document.getElementById('verified-title').textContent = 'Verified';
    document.getElementById('verified-text').innerHTML =
      `The person and ID belong to <strong>${escapeHtml(name.toUpperCase())}</strong>`;
    show('view-verified');
    addLog(`Verified: ${name}`, 'success');
  }\<close>
\<close>

definition goVerified :: "string \<Rightarrow> demo \<Rightarrow> demo" where
  "goVerified nm d =
     addLog (''Verified: '' @ nm)
       (d\<lparr>demoFaceScanner := safeStop (demoFaceScanner d),
          demoIdScanner := safeStop (demoIdScanner d),
          verifiedTitle := ''Verified'',
          verifiedText :=
            Some (''The person and ID belong to <strong>'' @ escapeHtml (toUpperCase nm)
                  @ ''</strong>''),
          activeView := ViewVerified\<rparr>)"

text \<open>The \<^verbatim>\<open>onLock\<close> of the ID scanner.\<close>

definition idOnLock :: "lockInfo \<Rightarrow> demo \<Rightarrow> demo" where
  "idOnLock idInfo d =
     addLog (''ID locked: '' @ lockClassName idInfo)
       (d\<lparr>lockedId := Some idInfo,
          badgeId := Done,
          idScanAgainShown := True,
          badgeVerify := Active,
          verifyStatus := ''Ready to verify!''\<rparr>)"

text \<open>
  The \<^verbatim>\<open>onLock\<close> of the face scanner: it stores the lock, stops the ID scanner if there
  is one, and creates and starts a new ID scanner.
\<close>

definition faceOnLock :: "lockInfo \<Rightarrow> start_env \<Rightarrow> demo \<Rightarrow> outcome" where
  "faceOnLock info env d =
     (let d1 = addLog (''Face locked: '' @ lockClassName info)
                 (d\<lparr>lockedFace := Some info, badgeFace := Done, faceScanAgainShown := True\<rparr>);
          d2 = d1\<lparr>badgeId := Active, verifyStatus := ''Face done. Waiting for ID lock...''\<rparr>
      in case (case demoIdScanner d2 of None \<Rightarrow> Inr None
               | Some sc \<Rightarrow> map_sum id Some (stop sc)) of
           Inl e \<Rightarrow> Raised e d2
         | Inr old \<Rightarrow>
             Returned (d2\<lparr>demoIdScanner := Some (started (newTMScanner idCfg) env)\<rparr>))"

text \<open>
  \<^verbatim>\<open>startDemoFlow\<close>: it clears both locks, resets the badges, stops the scanners of an
  earlier flow, creates and starts a new face scanner, and assigns the handlers.
\<close>

definition startDemoFlow :: "start_env \<Rightarrow> demo \<Rightarrow> outcome" where
  "startDemoFlow env d =
     (let d1 = (addLog ''Interactive Demo started.'' d)
                 \<lparr>lockedFace := None, lockedId := None,
                  badgeFace := Active, badgeId := Pending, badgeVerify := Pending,
                  verifyStatus := ''Waiting for face lock...''\<rparr>
      in case (case demoFaceScanner d1 of None \<Rightarrow> Inr None
               | Some sc \<Rightarrow> map_sum id Some (stop sc)) of
           Inl e \<Rightarrow> Raised e d1
         | Inr face' \<Rightarrow>
             (let d2 = d1\<lparr>demoFaceScanner := face'\<rparr>
              in case (case demoIdScanner d2 of None \<Rightarrow> Inr None
                       | Some sc \<Rightarrow> map_sum id Some (stop sc)) of
                   Inl e \<Rightarrow> Raised e d2
                 | Inr id' \<Rightarrow>
                     Returned (d2\<lparr>demoIdScanner := id',
                                  demoFaceScanner := Some (started (newTMScanner faceCfg) env),
                                  handlersInstalled := True\<rparr>)))"

text \<open>The handler of \<^verbatim>\<open>demo-face-scan-again\<close>: it resets the whole flow back to the face.\<close>

definition faceScanAgain :: "start_env \<Rightarrow> demo \<Rightarrow> outcome" where
  "faceScanAgain env d =
     (let d1 = d\<lparr>lockedFace := None, lockedId := None\<rparr>
      in case (case demoIdScanner d1 of None \<Rightarrow> Inr None
               | Some sc \<Rightarrow> map_sum id Some (stop sc)) of
           Inl e \<Rightarrow> Raised e d1
         | Inr id' \<Rightarrow>
             (let d2 = d1\<lparr>demoIdScanner := id',
                          badgeFace := Active, badgeId := Pending, badgeVerify := Pending,
                          faceScanAgainShown := False, idScanAgainShown := False,
                          verifyStatus := ''Waiting for face lock...''\<rparr>
              in case demoFaceScanner d2 of
                   None \<Rightarrow> Raised TypeError d2
                 | Some sc \<Rightarrow> Returned (d2\<lparr>demoFaceScanner := Some (started sc env)\<rparr>)))"

text \<open>
  The handler of \<^verbatim>\<open>demo-id-scan-again\<close>:
  \<^verbatim>\<open>
  lockedId = null;
  setStepState(document.getElementById('badge-id'), 'active');
  setStepState(document.getElementById('badge-verify'), 'pending');
  document.getElementById('demo-id-scan-again').style.display = 'none';
  document.getElementById('verify-status').textContent = 'Rescanning ID...';
  demoIdScanner.start();\<close>
  Calling \<^verbatim>\<open>start\<close> of an undefined \<^verbatim>\<open>demoIdScanner\<close> raises a \<^verbatim>\<open>TypeError\<close>.
\<close>

definition idScanAgain :: "start_env \<Rightarrow> demo \<Rightarrow> outcome" where
  "idScanAgain env d =
     (let d1 = d\<lparr>lockedId := None, badgeId := Active, badgeVerify := Pending,
                 idScanAgainShown := False, verifyStatus := ''Rescanning ID...''\<rparr>
      in case demoIdScanner d1 of
           None \<Rightarrow> Raised TypeError d1
         | Some sc \<Rightarrow> Returned (d1\<lparr>demoIdScanner := Some (started sc env)\<rparr>))"

text \<open>The handler of \<^verbatim>\<open>btn-demo-back\<close>.\<close>

definition demoBack :: "demo \<Rightarrow> demo" where
  "demoBack d =
     d\<lparr>demoFaceScanner := safeStop (demoFaceScanner d),
       demoIdScanner := safeStop (demoIdScanner d),
       activeView := ViewHome\<rparr>"

text \<open>
  The handler of \<^verbatim>\<open>btn-check-verify\<close>:
  \<^verbatim>\<open>
  if (!lockedFace || !lockedId) { ...textContent = 'Both face & ID must be locked!'; return; }
  const faceName = normalizeName(lockedFace.className);
  const idName = normalizeName(lockedId.className);
  if (faceName && idName && faceName === idName) {
    setStepState(document.getElementById('badge-verify'), 'done');
    goVerified(faceName);
  } else {
    alert('Mismatch! Please rescan ID.');
    lockedId = null;
    document.getElementById('demo-id-scan-again').style.display = 'none';
    setStepState(document.getElementById('badge-verify'), 'pending');
    setStepState(document.getElementById('badge-id'), 'active');
    demoIdScanner.start();
  }\<close>
  A string is truthy when it is not empty.
\<close>

definition checkVerify :: "start_env \<Rightarrow> demo \<Rightarrow> outcome" where
  "checkVerify env d =
     (case (lockedFace d, lockedId d) of
        (Some face, Some ident) \<Rightarrow>
          (let faceName = normalizeName (lockClassName face);
               idName = normalizeName (lockClassName ident)
           in if faceName \<noteq> [] \<and> idName \<noteq> [] \<and> faceName = idName
              then Returned (goVerified faceName (d\<lparr>badgeVerify := Done\<rparr>))
              else
                (let d1 = d\<lparr>alerts := alerts d @ [''Mismatch! Please rescan ID.''],
                            lockedId := None, idScanAgainShown := False,
                            badgeVerify := Pending, badgeId := Active\<rparr>
                 in case demoIdScanner d1 of
                      None \<Rightarrow> Raised TypeError d1
                    | Some sc \<Rightarrow> Returned (d1\<lparr>demoIdScanner := Some (started sc env)\<rparr>)))
      | _ \<Rightarrow> Returned (d\<lparr>verifyStatus := ''Both face & ID must be locked!''\<rparr>))"

text \<open>
  One frame callback of a scanner of the demo flow: the cycle runs on the scanner, and
  when it locks, it calls the scanner's \<^verbatim>\<open>onLock\<close>.
\<close>

definition faceCycle :: "frame \<Rightarrow> start_env \<Rightarrow> demo \<Rightarrow> outcome" where
  "faceCycle f env d =
     (case demoFaceScanner d of
        None \<Rightarrow> Returned d
      | Some sc \<Rightarrow>
          (case rafPending sc of
             [] \<Rightarrow> Returned d
           | h # hs \<Rightarrow>
               (case loop (sc\<lparr>rafPending := hs\<rparr>) f of
                  (Lock info, sc') \<Rightarrow> faceOnLock info env (d\<lparr>demoFaceScanner := Some sc'\<rparr>)
                | (_, sc') \<Rightarrow> Returned (d\<lparr>demoFaceScanner := Some sc'\<rparr>))))"

definition idCycle :: "frame \<Rightarrow> demo \<Rightarrow> outcome" where
  "idCycle f d =
     (case demoIdScanner d of
        None \<Rightarrow> Returned d
      | Some sc \<Rightarrow>
          (case rafPending sc of
             [] \<Rightarrow> Returned d
           | h # hs \<Rightarrow>
               (case loop (sc\<lparr>rafPending := hs\<rparr>) f of
                  (Lock info, sc') \<Rightarrow> Returned (idOnLock info (d\<lparr>demoIdScanner := Some sc'\<rparr>))
                | (_, sc') \<Rightarrow> Returned (d\<lparr>demoIdScanner := Some sc'\<rparr>))))"

text \<open>
  Everything that can happen to the demo flow: the buttons of the home view (the solo
  buttons only switch the view here; the solo scanners are separate objects), the
  buttons of the demo view, which do nothing before \<^verbatim>\<open>startDemoFlow\<close> has assigned their
  handlers, the done button of the verified view, the back buttons of the solo views,
  and the frame callbacks of the two scanners.
\<close>

datatype demo_event =
    BtnDemo start_env
  | BtnFaceOnly
  | BtnIdOnly
  | BtnVerifiedDone
  | BtnSoloBack
  | FaceScanAgain start_env
  | IdScanAgain start_env
  | DemoBack
  | CheckVerify start_env
  | FaceCycle frame start_env
  | IdCycle frame

fun handle :: "demo \<Rightarrow> demo_event \<Rightarrow> outcome" where
  "handle d (BtnDemo env) = startDemoFlow env (d\<lparr>activeView := ViewDemo\<rparr>)"
| "handle d BtnFaceOnly = Returned (d\<lparr>activeView := ViewSoloFace\<rparr>)"
| "handle d BtnIdOnly = Returned (d\<lparr>activeView := ViewSoloId\<rparr>)"
| "handle d BtnVerifiedDone = Returned (d\<lparr>activeView := ViewHome\<rparr>)"
| "handle d BtnSoloBack = Returned (d\<lparr>activeView := ViewHome\<rparr>)"
| "handle d (FaceScanAgain env) = (if handlersInstalled d then faceScanAgain env d else Returned d)"
| "handle d (IdScanAgain env) = (if handlersInstalled d then idScanAgain env d else Returned d)"
| "handle d DemoBack = (if handlersInstalled d then Returned (demoBack d) else Returned d)"
| "handle d (CheckVerify env) = (if handlersInstalled d then checkVerify env d else Returned d)"
| "handle d (FaceCycle f env) = faceCycle f env d"
| "handle d (IdCycle f) = idCycle f d"

text \<open>A sequence of events; the state persists after a handler raised.\<close>

fun handleAll :: "demo \<Rightarrow> demo_event list \<Rightarrow> demo" where
  "handleAll d [] = d"
| "handleAll d (ev # evs) = handleAll (stateOf (handle d ev)) evs"

text \<open>The page after loading: no scanner yet, nothing locked, the home view.\<close>

definition pageLoaded :: demo where
  "pageLoaded =
     \<lparr> demoFaceScanner = None, demoIdScanner = None, lockedFace = None, lockedId = None,
       activeView = ViewHome, badgeFace = Pending, badgeId = Pending, badgeVerify = Pending,
       verifyStatus = [], faceScanAgainShown = False, idScanAgainShown = False,
       handlersInstalled = False, alerts = [], verifiedTitle = [], verifiedText = None,
       logs = [''App Ready. Choose Demo or Solo mode.''] \<rparr>"

text \<open>
  What holds of the variables in every state the page can reach: a stored lock comes
  from a scanner that exists, and a scanner exists only once \<^verbatim>\<open>startDemoFlow\<close> has run.
\<close>

definition wired :: "demo \<Rightarrow> bool" where
  "wired d =
     ((lockedId d \<noteq> None \<longrightarrow> demoIdScanner d \<noteq> None) \<and>
      (lockedFace d \<noteq> None \<longrightarrow> demoFaceScanner d \<noteq> None) \<and>
      (demoFaceScanner d \<noteq> None \<longrightarrow> handlersInstalled d))"

text \<open>
  A demo flow in which the face scanner locks on \<open>a\<close> and then the ID scanner locks on
  \<open>b\<close>, each after one second at 99%.
\<close>

definition exFlow :: "string \<Rightarrow> string \<Rightarrow> demo" where
  "exFlow a b =
     handleAll pageLoaded
       [BtnDemo (exEnv (oneClass a (99/100) 0)),
        FaceCycle (oneClass a (99/100) 1000) (exEnv (oneClass b (99/100) 0)),
        IdCycle (oneClass b (99/100) 1000)]"

section \<open>Properties of normalizeName\<close>

lemma toLowerChar_idem: "toLowerChar (toLowerChar c) = toLowerChar c"
  by (auto simp: toLowerChar_def)

lemma isSpace_toLowerChar: "isSpace (toLowerChar c) = isSpace c"
  by (auto simp: toLowerChar_def isSpace_def)

lemma toLowerChar_blank: "toLowerChar (CHR '' '') = CHR '' ''"
  by (simp add: toLowerChar_def)

lemma isSpace_blank: "isSpace (CHR '' '')"
  by (simp add: isSpace_def)

lemma toLowerCase_idem: "toLowerCase (toLowerCase s) = toLowerCase s"
  by (simp add: toLowerCase_def toLowerChar_idem)

lemma dropWhile_toLowerCase:
  "dropWhile isSpace (toLowerCase s) = toLowerCase (dropWhile isSpace s)"
  by (induction s) (simp_all add: toLowerCase_def isSpace_toLowerChar)

lemma collapseSpaces_toLowerCase:
  "collapseSpaces (toLowerCase s) = toLowerCase (collapseSpaces s)"
proof (induction s rule: collapseSpaces.induct)
  case 1
  then show ?case by (simp add: toLowerCase_def)
next
  case (2 c cs)
  show ?case
  proof (cases "isSpace c")
    case True
    have "collapseSpaces (toLowerCase (c # cs))
            = CHR '' '' # collapseSpaces (dropWhile isSpace (toLowerCase cs))"
      using True by (simp add: toLowerCase_def isSpace_toLowerChar)
    also have "\<dots> = CHR '' '' # toLowerCase (collapseSpaces (dropWhile isSpace cs))"
      using 2(1)[OF True] by (simp add: dropWhile_toLowerCase)
    also have "\<dots> = toLowerCase (collapseSpaces (c # cs))"
      using True by (simp add: toLowerCase_def toLowerChar_blank)
    finally show ?thesis .
  next
    case False
    then show ?thesis
      using 2(2)[OF False] by (simp add: toLowerCase_def isSpace_toLowerChar)
  qed
qed

lemma collapseSpaces_keeps_front:
  "z = [] \<or> \<not> isSpace (hd z) \<Longrightarrow> dropWhile isSpace (collapseSpaces z) = collapseSpaces z"
  by (cases z) auto

lemma collapseSpaces_idem: "collapseSpaces (collapseSpaces y) = collapseSpaces y"
proof (induction y rule: collapseSpaces.induct)
  case 1
  then show ?case by simp
next
  case (2 c cs)
  show ?case
  proof (cases "isSpace c")
    case True
    have front: "dropWhile isSpace cs = [] \<or> \<not> isSpace (hd (dropWhile isSpace cs))"
      using hd_dropWhile[of isSpace cs] by blast
    show ?thesis
      using True 2(1)[OF True] collapseSpaces_keeps_front[OF front]
      by (simp add: isSpace_blank)
  next
    case False
    then show ?thesis using 2(2)[OF False] by simp
  qed
qed

lemma collapseSpaces_last:
  "y \<noteq> [] \<Longrightarrow> \<not> isSpace (last y) \<Longrightarrow>
     collapseSpaces y \<noteq> [] \<and> last (collapseSpaces y) = last y"
proof (induction y rule: collapseSpaces.induct)
  case 1
  then show ?case by simp
next
  case (2 c cs)
  show ?case
  proof (cases "isSpace c")
    case True
    with 2(4) have cs: "cs \<noteq> []" by auto
    then have l: "last cs \<in> set cs" "\<not> isSpace (last cs)" using 2(4) by auto
    then have d: "dropWhile isSpace cs \<noteq> []" "last (dropWhile isSpace cs) = last cs"
      by (auto simp: dropWhile_last)
    from 2(1)[OF True d(1)] d(2) l(2)
    show ?thesis using True cs by simp
  next
    case False
    show ?thesis
    proof (cases "cs = []")
      case True
      then show ?thesis using False by simp
    next
      case ne: False
      with 2(4) have "\<not> isSpace (last cs)" by simp
      from 2(2)[OF False ne this] show ?thesis using False ne by simp
    qed
  qed
qed

text \<open>A string without leading or trailing whitespace.\<close>

lemma trim_ends:
  "trim s = [] \<or> (\<not> isSpace (hd (trim s)) \<and> \<not> isSpace (last (trim s)))"
proof (cases "trim s = []")
  case True
  then show ?thesis by simp
next
  case False
  let ?z = "dropWhile isSpace s"
  let ?u = "dropWhile isSpace (rev ?z)"
  have u: "?u \<noteq> []" using False by (simp add: trim_def)
  have z: "?z \<noteq> []"
  proof
    assume "?z = []"
    then have "?u = []" by (simp only: rev.simps dropWhile.simps)
    with u show False by simp
  qed
  have "\<not> isSpace (hd ?u)" using hd_dropWhile[OF u] .
  then have l: "\<not> isSpace (last (trim s))" using u by (simp add: trim_def last_rev)
  have hz: "\<not> isSpace (hd ?z)" using hd_dropWhile[OF z] .
  have "hd ?z \<in> set (rev ?z)" using z by simp
  then have "last ?u = last (rev ?z)" using hz by (rule dropWhile_last)
  then have "hd (trim s) = hd ?z" using u z by (simp add: trim_def hd_rev last_rev)
  then show ?thesis using hz l by simp
qed

lemma trim_fixed:
  "y = [] \<or> (\<not> isSpace (hd y) \<and> \<not> isSpace (last y)) \<Longrightarrow> trim y = y"
proof (cases "y = []")
  case True
  then show ?thesis by (simp add: trim_def)
next
  case False
  assume "y = [] \<or> (\<not> isSpace (hd y) \<and> \<not> isSpace (last y))"
  with False have e: "\<not> isSpace (hd y)" "\<not> isSpace (last y)" by auto
  have "dropWhile isSpace y = y" using e(1) by (simp add: dropWhile_eq_self_iff)
  moreover have "dropWhile isSpace (rev y) = rev y"
    using e(2) False by (simp add: dropWhile_eq_self_iff hd_rev)
  ultimately show ?thesis by (simp add: trim_def)
qed

lemma normalizeName_ends:
  "normalizeName x = [] \<or>
     (\<not> isSpace (hd (normalizeName x)) \<and> \<not> isSpace (last (normalizeName x)))"
proof (cases "trim x = []")
  case True
  then show ?thesis by (simp add: normalizeName_def toLowerCase_def)
next
  case False
  let ?t = "toLowerCase (trim x)"
  have t: "?t \<noteq> []" "\<not> isSpace (hd ?t)" "\<not> isSpace (last ?t)"
    using False trim_ends[of x]
    by (simp_all add: toLowerCase_def hd_map last_map isSpace_toLowerChar)
  have "collapseSpaces ?t \<noteq> [] \<and> last (collapseSpaces ?t) = last ?t"
    using collapseSpaces_last[OF t(1,3)] .
  moreover have "hd (collapseSpaces ?t) = hd ?t"
    using t(1,2) by (cases ?t) auto
  ultimately show ?thesis using t by (simp add: normalizeName_def)
qed

text \<open>
  Claim C9. The value of \<^verbatim>\<open>normalizeName\<close> is a fixed point of each of its three steps
  (it has no leading or trailing whitespace, no upper-case letter, and every run of
  whitespace in it is a single space), and so \<^verbatim>\<open>normalizeName\<close> is idempotent.
\<close>

theorem normalizeName_idempotent:
  "normalizeName (normalizeName x) = normalizeName x
   \<and> trim (normalizeName x) = normalizeName x
   \<and> toLowerCase (normalizeName x) = normalizeName x
   \<and> collapseSpaces (normalizeName x) = normalizeName x"
proof -
  have t: "trim (normalizeName x) = normalizeName x"
    using normalizeName_ends[of x] by (rule trim_fixed)
  have l: "toLowerCase (normalizeName x) = normalizeName x"
    by (simp add: normalizeName_def collapseSpaces_toLowerCase[symmetric] toLowerCase_idem)
  have c: "collapseSpaces (normalizeName x) = normalizeName x"
    by (simp add: normalizeName_def collapseSpaces_idem)
  have "normalizeName (normalizeName x)
          = collapseSpaces (toLowerCase (trim (normalizeName x)))"
    by (simp add: normalizeName_def)
  also have "\<dots> = normalizeName x" by (simp only: t l c)
  finally show ?thesis using t l c by simp
qed

lemmas name_eval = normalizeName_def trim_def toLowerCase_def toLowerChar_def isSpace_def

theorem normalizeName_idempotent_witness:
  "normalizeName [CHR 0x09, CHR ''A'', CHR ''l'', CHR ''i'', CHR 0x0A, CHR '' '', CHR ''B'', CHR '' '']
     = ''ali b''
   \<and> normalizeName ''ali b'' = ''ali b''"
proof -
  have e: "normalizeName [CHR 0x09, CHR ''A'', CHR ''l'', CHR ''i'', CHR 0x0A, CHR '' '', CHR ''B'', CHR '' '']
     = ''ali b''"
    by (simp add: name_eval)
  show ?thesis
    using normalizeName_idempotent[of "[CHR 0x09, CHR ''A'', CHR ''l'', CHR ''i'', CHR 0x0A, CHR '' '', CHR ''B'', CHR '' '']"]
    unfolding e by simp
qed

section \<open>Properties of the scanner\<close>

subsection \<open>stop\<close>

lemma stop_total: "\<exists>s'. stop s = Inr s'"
  by (simp add: stop_def Let_def split: option.split sum.split)

lemma stop_fields:
  assumes "stop s = Inr s'"
  shows "isRunning s' = False" "locked s' = locked s" "lastTop s' = lastTop s"
    "threshold s' = threshold s" "stableWindowMs s' = stableWindowMs s"
    "predLoopId s' = predLoopId s" "trace s' = trace s" "rafCounter s' = rafCounter s"
    "model s' = model s"
  using assms
  by (auto simp: stop_def Let_def cancelAnimationFrame_def split: option.splits sum.splits if_splits)

lemma stop_pending:
  assumes "stop s = Inr s'"
  shows "rafPending s' = (case predLoopId s of None \<Rightarrow> rafPending s
           | Some h \<Rightarrow> if h \<noteq> 0 then removeAll h (rafPending s) else rafPending s)"
  using assms
  by (auto simp: stop_def Let_def cancelAnimationFrame_def split: option.splits sum.splits if_splits)



lemma loop_not_running: "\<not> isRunning s \<Longrightarrow> loop s f = (NotRunning, s)"
  by (simp add: loop_def)

subsection \<open>The ranking of a prediction array\<close>

lemma sortPreds_Nil_iff: "sortPreds preds = [] \<longleftrightarrow> preds = []"
proof -
  have "length (sortPreds preds) = length preds" by (simp add: sortPreds_def)
  then show ?thesis by (metis length_0_conv)
qed

lemma sortPreds_Cons:
  "sortPreds (x # xs) =
     (case sortPreds xs of
        [] \<Rightarrow> [x]
      | m # ms \<Rightarrow> if probability m \<le> probability x then x # m # ms
                  else m # insort_key (\<lambda>p. - probability p) x ms)"
  by (simp add: sortPreds_def split: list.split)

lemma sortPreds_hd_ranked:
  "preds \<noteq> [] \<Longrightarrow> \<exists>i. rankedFirst preds i \<and> hd (sortPreds preds) = preds ! i"
proof (induction preds)
  case Nil
  then show ?case by simp
next
  case (Cons x xs)
  show ?case
  proof (cases "xs = []")
    case True
    then have "rankedFirst (x # xs) 0 \<and> hd (sortPreds (x # xs)) = (x # xs) ! 0"
      by (simp add: rankedFirst_def sortPreds_def)
    then show ?thesis by blast
  next
    case False
    then obtain i where i: "rankedFirst xs i" "hd (sortPreds xs) = xs ! i"
      using Cons.IH by blast
    obtain m ms where ms: "sortPreds xs = m # ms"
      using False sortPreds_Nil_iff[of xs] by (cases "sortPreds xs") auto
    have m: "m = xs ! i" using i(2) ms by simp
    have bound: "\<forall>j < length xs. probability (xs ! j) \<le> probability m"
      and first: "\<forall>j < i. probability (xs ! j) < probability m"
      and len: "i < length xs"
      using i(1) m by (simp_all add: rankedFirst_def)
    show ?thesis
    proof (cases "probability m \<le> probability x")
      case True
      have "hd (sortPreds (x # xs)) = (x # xs) ! 0"
        using True ms by (simp add: sortPreds_Cons)
      moreover have "rankedFirst (x # xs) 0"
        unfolding rankedFirst_def
      proof (intro conjI allI impI)
        fix j assume "j < length (x # xs)"
        then show "probability ((x # xs) ! j) \<le> probability ((x # xs) ! 0)"
          using bound True by (cases j) auto
      qed simp_all
      ultimately show ?thesis by blast
    next
      case False
      have "hd (sortPreds (x # xs)) = (x # xs) ! Suc i"
        using False ms m by (simp add: sortPreds_Cons)
      moreover have "rankedFirst (x # xs) (Suc i)"
        unfolding rankedFirst_def
      proof (intro conjI allI impI)
        show "Suc i < length (x # xs)" using len by simp
      next
        fix j assume "j < length (x # xs)"
        then show "probability ((x # xs) ! j) \<le> probability ((x # xs) ! Suc i)"
          using bound False m by (cases j) auto
      next
        fix j assume "j < Suc i"
        then show "probability ((x # xs) ! j) < probability ((x # xs) ! Suc i)"
          using first False m by (cases j) auto
      qed
      ultimately show ?thesis by blast
    qed
  qed
qed

lemma rankedFirst_unique:
  assumes "rankedFirst preds i" "rankedFirst preds j"
  shows "i = j"
proof (rule ccontr)
  assume "i \<noteq> j"
  then consider "i < j" | "j < i" by linarith
  then show False
  proof cases
    case 1
    then have "probability (preds ! i) < probability (preds ! j)"
      using assms(2) by (simp add: rankedFirst_def)
    moreover have "probability (preds ! j) \<le> probability (preds ! i)"
      using assms by (simp add: rankedFirst_def)
    ultimately show False by simp
  next
    case 2
    then have "probability (preds ! j) < probability (preds ! i)"
      using assms(1) by (simp add: rankedFirst_def)
    moreover have "probability (preds ! i) \<le> probability (preds ! j)"
      using assms by (simp add: rankedFirst_def)
    ultimately show False by simp
  qed
qed

text \<open>The entry the sort puts first is the entry ranked first.\<close>

lemma topPrediction_ranked:
  "topPrediction f = Some p \<longleftrightarrow>
     (\<exists>preds i. predict f = Some preds \<and> rankedFirst preds i \<and> preds ! i = p)"
proof
  assume "topPrediction f = Some p"
  then obtain preds rest where a: "predict f = Some preds" "sortPreds preds = p # rest"
    by (auto simp: topPrediction_def split: option.splits list.splits)
  then have "preds \<noteq> []" using sortPreds_Nil_iff[of preds] by auto
  from sortPreds_hd_ranked[OF this] a show
    "\<exists>preds i. predict f = Some preds \<and> rankedFirst preds i \<and> preds ! i = p"
    by auto
next
  assume "\<exists>preds i. predict f = Some preds \<and> rankedFirst preds i \<and> preds ! i = p"
  then obtain preds i where a: "predict f = Some preds" "rankedFirst preds i" "preds ! i = p"
    by blast
  then have ne: "preds \<noteq> []" by (auto simp: rankedFirst_def)
  then obtain m ms where ms: "sortPreds preds = m # ms"
    using sortPreds_Nil_iff[of preds] by (cases "sortPreds preds") auto
  obtain j where j: "rankedFirst preds j" "hd (sortPreds preds) = preds ! j"
    using sortPreds_hd_ranked[OF ne] by blast
  have "j = i" using rankedFirst_unique[OF j(1) a(2)] .
  then have "m = p" using j(2) ms a(3) by simp
  then show "topPrediction f = Some p" using a(1) ms by (simp add: topPrediction_def)
qed

lemma rankedFirst_less: "rankedFirst preds i \<Longrightarrow> i < length preds"
  by (simp add: rankedFirst_def)

lemma qualifies_iff:
  "qualifies thr l f \<longleftrightarrow>
     (\<exists>p. topPrediction f = Some p \<and> className p = l \<and> thr \<le> probability p)"
proof (cases "predict f")
  case None
  then show ?thesis by (simp add: qualifies_def topPrediction_def)
next
  case (Some preds)
  have "(\<exists>i < length preds. rankedFirst preds i \<and> className (preds ! i) = l
            \<and> thr \<le> probability (preds ! i))
        \<longleftrightarrow> (\<exists>i. rankedFirst preds i \<and> className (preds ! i) = l
            \<and> thr \<le> probability (preds ! i))"
    using rankedFirst_less by blast
  then show ?thesis using Some by (auto simp: qualifies_def topPrediction_ranked)
qed


subsection \<open>One cycle\<close>

lemma loop_top:
  assumes "isRunning s" "webcam s = Some w" "topPrediction f = Some p"
  shows "\<exists>ranked. loop s f = stability (overlays ranked s) (className p) (probability p) f"
  using assms
  by (auto simp: loop_def afterPredict_def topPrediction_def split: option.splits list.splits)

lemma overlays_fields:
  "lastTop (overlays r s) = lastTop s" "threshold (overlays r s) = threshold s"
  "stableWindowMs (overlays r s) = stableWindowMs s" "isRunning (overlays r s) = isRunning s"
  "webcam (overlays r s) = webcam s" "rafPending (overlays r s) = rafPending s"
  "locked (overlays r s) = locked s" "predLoopId (overlays r s) = predLoopId s"
  "rafCounter (overlays r s) = rafCounter s"
  by (simp_all add: overlays_def split: list.split)

lemma raf_fields:
  "lastTop (requestAnimationFrame s) = lastTop s" "threshold (requestAnimationFrame s) = threshold s"
  "stableWindowMs (requestAnimationFrame s) = stableWindowMs s"
  "isRunning (requestAnimationFrame s) = isRunning s"
  "webcam (requestAnimationFrame s) = webcam s"
  "rafPending (requestAnimationFrame s) = rafPending s @ [Suc (rafCounter s)]"
  "locked (requestAnimationFrame s) = locked s"
  by (simp_all add: requestAnimationFrame_def Let_def)

lemma restart_fields:
  "threshold (restartStreak s n p f) = threshold s"
  "stableWindowMs (restartStreak s n p f) = stableWindowMs s"
  "isRunning (restartStreak s n p f) = isRunning s"
  "webcam (restartStreak s n p f) = webcam s"
  "rafPending (restartStreak s n p f) = rafPending s"
  "rafCounter (restartStreak s n p f) = rafCounter s"
  "locked (restartStreak s n p f) = locked s"
  "lastTop (restartStreak s n p f) =
     (if p \<ge> threshold s then Some \<lparr>name = n, since = now f, prob = p\<rparr> else None)"
  by (simp_all add: restartStreak_def)

text \<open>The three ways the stability check ends.\<close>

lemma stability_establish:
  assumes "case lastTop s of None \<Rightarrow> True | Some lt \<Rightarrow> name lt \<noteq> n \<or> p < threshold s"
  shows "stability s n p f = (Continue, requestAnimationFrame (restartStreak s n p f))"
  using assms by (auto simp: stability_def split: option.splits)

lemma stability_wait:
  assumes "lastTop s = Some lt" "name lt = n" "threshold s \<le> p" "elapsedSince f (since lt) < stableWindowMs s"
  shows "stability s n p f = (Continue, requestAnimationFrame s)"
  using assms by (auto simp: stability_def)

lemma stability_lock:
  assumes "lastTop s = Some lt" "name lt = n" "threshold s \<le> p" "stableWindowMs s \<le> elapsedSince f (since lt)"
  shows "stability s n p f = lockNow s n p f"
  using assms by (auto simp: stability_def)

lemma lockNow_result:
  "\<exists>s'. lockNow s n p f = (Lock (LockInfo n p (date f)), s') \<and> locked s' \<and> \<not> isRunning s'
     \<and> lastTop s' = lastTop s \<and> threshold s' = threshold s \<and> stableWindowMs s' = stableWindowMs s
     \<and> set (rafPending s') \<subseteq> set (rafPending s)"
proof -
  obtain s1 where s1: "stop (s\<lparr>locked := True\<rparr>) = Inr s1" using stop_total by blast
  have "set (rafPending s1) \<subseteq> set (rafPending s)"
    by (auto simp: stop_pending[OF s1] split: option.splits)
  then show ?thesis
    using stop_fields[OF s1] by (simp add: lockNow_def s1 freezeOverlay_def)
qed

subsection \<open>A run of cycles\<close>

lemma drive_nothing_pending: "rafPending s = [] \<Longrightarrow> drive s fs = ([], s)"
  by (cases fs) simp_all

lemma loop_establish:
  assumes "isRunning s" "webcam s = Some w" "topPrediction f = Some p"
    and "case lastTop s of None \<Rightarrow> True | Some lt \<Rightarrow> name lt \<noteq> className p \<or> probability p < threshold s"
  shows "\<exists>s'. loop s f = (Continue, s') \<and> isRunning s' \<and> webcam s' = Some w
      \<and> threshold s' = threshold s \<and> stableWindowMs s' = stableWindowMs s
      \<and> locked s' = locked s
      \<and> rafPending s' = rafPending s @ [Suc (rafCounter s)]
      \<and> lastTop s' = (if probability p \<ge> threshold s
                        then Some \<lparr>name = className p, since = now f, prob = probability p\<rparr>
                        else None)"
proof -
  obtain r where r: "loop s f = stability (overlays r s) (className p) (probability p) f"
    using loop_top[OF assms(1-3)] by blast
  have "case lastTop (overlays r s) of None \<Rightarrow> True
        | Some lt \<Rightarrow> name lt \<noteq> className p \<or> probability p < threshold (overlays r s)"
    using assms(4) by (simp add: overlays_fields split: option.splits)
  from stability_establish[OF this]
  show ?thesis
    using assms(1,2) by (simp add: r raf_fields restart_fields overlays_fields)
qed

lemma loop_wait:
  assumes "isRunning s" "webcam s = Some w" "lastTop s = Some lt"
    and "qualifies (threshold s) (name lt) f" "elapsedSince f (since lt) < stableWindowMs s"
  shows "\<exists>s'. loop s f = (Continue, s') \<and> isRunning s' \<and> webcam s' = Some w
      \<and> threshold s' = threshold s \<and> stableWindowMs s' = stableWindowMs s
      \<and> locked s' = locked s
      \<and> rafPending s' = rafPending s @ [Suc (rafCounter s)]
      \<and> lastTop s' = Some lt"
proof -
  obtain p where p: "topPrediction f = Some p" "className p = name lt" "threshold s \<le> probability p"
    using assms(4) by (auto simp: qualifies_iff)
  obtain r where r: "loop s f = stability (overlays r s) (className p) (probability p) f"
    using loop_top[OF assms(1,2) p(1)] by blast
  have "stability (overlays r s) (className p) (probability p) f
          = (Continue, requestAnimationFrame (overlays r s))"
    by (rule stability_wait[where lt = lt]) (simp_all add: overlays_fields assms p)
  then show ?thesis
    using assms(1-3) by (simp add: r raf_fields overlays_fields)
qed

lemma loop_lock:
  assumes "isRunning s" "webcam s = Some w" "lastTop s = Some lt"
    and "qualifies (threshold s) (name lt) f" "stableWindowMs s \<le> elapsedSince f (since lt)"
  shows "\<exists>info s'. loop s f = (Lock info, s') \<and> lockClassName info = name lt
      \<and> threshold s \<le> lockProb info
      \<and> locked s' \<and> \<not> isRunning s' \<and> set (rafPending s') \<subseteq> set (rafPending s)"
proof -
  obtain p where p: "topPrediction f = Some p" "className p = name lt" "threshold s \<le> probability p"
    using assms(4) by (auto simp: qualifies_iff)
  obtain r where r: "loop s f = stability (overlays r s) (className p) (probability p) f"
    using loop_top[OF assms(1,2) p(1)] by blast
  have "stability (overlays r s) (className p) (probability p) f
          = lockNow (overlays r s) (className p) (probability p) f"
    by (rule stability_lock[where lt = lt]) (simp_all add: overlays_fields assms p)
  moreover obtain s' where "lockNow (overlays r s) (className p) (probability p) f
        = (Lock (LockInfo (className p) (probability p) (date f)), s')"
      "locked s'" "\<not> isRunning s'" "set (rafPending s') \<subseteq> set (rafPending (overlays r s))"
    using lockNow_result[of "overlays r s" "className p" "probability p" f] by blast
  ultimately show ?thesis
    by (simp add: r p overlays_fields)
qed

lemma drive_streak:
  assumes "isRunning s" "webcam s = Some w" "rafPending s = [h]" "lastTop s = Some lt"
    and "\<forall>f \<in> set fs. qualifies (threshold s) (name lt) f"
    and "\<exists>f \<in> set fs. stableWindowMs s \<le> elapsedSince f (since lt)"
  shows "\<exists>k info s'. drive s fs = (replicate k Continue @ [Lock info], s')
      \<and> lockClassName info = name lt \<and> threshold s \<le> lockProb info
      \<and> locked s' \<and> \<not> isRunning s' \<and> rafPending s' = []"
  using assms
proof (induction fs arbitrary: s h)
  case Nil
  then show ?case by simp
next
  case (Cons f fs)
  let ?s0 = "s\<lparr>rafPending := []\<rparr>"
  have s0: "isRunning ?s0" "webcam ?s0 = Some w" "lastTop ?s0 = Some lt"
    "qualifies (threshold ?s0) (name lt) f"
    using Cons.prems by simp_all
  show ?case
  proof (cases "stableWindowMs s \<le> elapsedSince f (since lt)")
    case True
    then have "stableWindowMs ?s0 \<le> elapsedSince f (since lt)" by simp
    from loop_lock[OF s0 this]
    obtain info s' where l: "loop ?s0 f = (Lock info, s')" "lockClassName info = name lt"
      "locked s'" "\<not> isRunning s'" "rafPending s' = []" "threshold s \<le> lockProb info"
      by auto
    have "drive s (f # fs) = (replicate 0 Continue @ [Lock info], s')"
      using Cons.prems(3) l by (simp add: drive_nothing_pending)
    then show ?thesis using l by blast
  next
    case False
    then have "elapsedSince f (since lt) < stableWindowMs ?s0" by simp
    from loop_wait[OF s0 this]
    obtain s1 where l: "loop ?s0 f = (Continue, s1)" "isRunning s1" "webcam s1 = Some w"
      "threshold s1 = threshold s" "stableWindowMs s1 = stableWindowMs s"
      "rafPending s1 = [Suc (rafCounter s)]" "lastTop s1 = Some lt"
      by auto
    have "\<forall>f \<in> set fs. qualifies (threshold s1) (name lt) f"
      using Cons.prems(5) l(4) by simp
    moreover have "\<exists>f \<in> set fs. stableWindowMs s1 \<le> elapsedSince f (since lt)"
      using Cons.prems(6) False l(5) by auto
    ultimately obtain k info s' where d: "drive s1 fs = (replicate k Continue @ [Lock info], s')"
      "lockClassName info = name lt" "locked s'" "\<not> isRunning s'" "rafPending s' = []"
      "threshold s1 \<le> lockProb info"
      using Cons.IH[OF l(2,3,6,7)] by blast
    have "drive s (f # fs) = (replicate (Suc k) Continue @ [Lock info], s')"
      using Cons.prems(3) l(1) d(1) by simp
    moreover have "threshold s \<le> lockProb info" using d(6) l(4) by simp
    ultimately show ?thesis using d(2-5) by blast
  qed
qed

text \<open>A run over two streams in a row is the run over the first, continued over the second.\<close>

lemma drive_append:
  "drive s (fs @ gs) =
     (fst (drive s fs) @ fst (drive (snd (drive s fs)) gs), snd (drive (snd (drive s fs)) gs))"
proof (induction fs arbitrary: s)
  case Nil
  then show ?case by simp
next
  case (Cons f fs)
  show ?case
  proof (cases "rafPending s")
    case Nil
    then show ?thesis by (simp add: drive_nothing_pending)
  next
    case (Cons h hs)
    then show ?thesis
      using Cons.IH[of "snd (loop (s\<lparr>rafPending := hs\<rparr>) f)"] by (simp add: split_beta)
  qed
qed

text \<open>What a cycle that continues leaves behind.\<close>

lemma loop_continue_inv:
  assumes "loop s f = (Continue, s1)"
  shows "isRunning s \<and> isRunning s1 \<and> webcam s \<noteq> None \<and> webcam s1 = webcam s
      \<and> threshold s1 = threshold s \<and> stableWindowMs s1 = stableWindowMs s
      \<and> rafPending s1 = rafPending s @ [Suc (rafCounter s)]
      \<and> (\<forall>lt. lastTop s1 = Some lt \<longrightarrow> qualifies (threshold s) (name lt) f)"
proof -
  from assms obtain w p where a: "isRunning s" "webcam s = Some w" "topPrediction f = Some p"
    by (auto simp: loop_def afterPredict_def topPrediction_def
             split: if_splits option.splits list.splits)
  show ?thesis
  proof (cases "case lastTop s of None \<Rightarrow> True
                | Some lt \<Rightarrow> name lt \<noteq> className p \<or> probability p < threshold s")
    case True
    from loop_establish[OF a True] assms a show ?thesis
      by (auto simp: qualifies_iff)
  next
    case False
    then obtain lt where lt: "lastTop s = Some lt" "name lt = className p"
        "threshold s \<le> probability p"
      by (auto split: option.splits)
    have q: "qualifies (threshold s) (name lt) f"
      using lt a(3) by (auto simp: qualifies_iff)
    show ?thesis
    proof (cases "elapsedSince f (since lt) < stableWindowMs s")
      case True
      from loop_wait[OF a(1,2) lt(1) q True] assms a q show ?thesis by auto
    next
      case False
      then have "stableWindowMs s \<le> elapsedSince f (since lt)" by simp
      from loop_lock[OF a(1,2) lt(1) q this] assms show ?thesis by auto
    qed
  qed
qed

text \<open>
  A run in which every frame was evaluated and every cycle continued leaves the scanner
  capturing, and its candidate, if there is one, is the top-ranked label of the last frame.
\<close>

lemma drive_all_continue:
  assumes "isRunning s" "webcam s = Some w" "rafPending s = [h]"
    and "fst (drive s fs) = replicate (length fs) Continue"
    and "fs \<noteq> []"
  shows "isRunning (snd (drive s fs)) \<and> webcam (snd (drive s fs)) = Some w
      \<and> (\<exists>h'. rafPending (snd (drive s fs)) = [h'])
      \<and> threshold (snd (drive s fs)) = threshold s
      \<and> stableWindowMs (snd (drive s fs)) = stableWindowMs s
      \<and> (\<forall>lt. lastTop (snd (drive s fs)) = Some lt \<longrightarrow>
             qualifies (threshold s) (name lt) (last fs))"
  using assms
proof (induction fs arbitrary: s h)
  case Nil
  then show ?case by simp
next
  case (Cons f fs)
  let ?s0 = "s\<lparr>rafPending := []\<rparr>"
  obtain d s1 where l: "loop ?s0 f = (d, s1)" by (cases "loop ?s0 f")
  have dr: "drive s (f # fs) = (d # fst (drive s1 fs), snd (drive s1 fs))"
    using Cons.prems(3) l by (simp add: split_beta)
  then have d: "d = Continue" and rest: "fst (drive s1 fs) = replicate (length fs) Continue"
    using Cons.prems(4) by simp_all
  from loop_continue_inv[of ?s0 f s1] l d
  have s1: "isRunning s1" "webcam s1 = Some w" "threshold s1 = threshold s"
      "stableWindowMs s1 = stableWindowMs s" "rafPending s1 = [Suc (rafCounter s)]"
      "\<forall>lt. lastTop s1 = Some lt \<longrightarrow> qualifies (threshold s) (name lt) f"
    using Cons.prems(2) by simp_all
  show ?case
  proof (cases "fs = []")
    case True
    then show ?thesis using dr s1 by simp
  next
    case False
    from Cons.IH[OF s1(1,2,5) rest False] show ?thesis
      using dr False s1(3,4) by simp
  qed
qed

text \<open>A streak that begins while the candidate, if there is one, has another label.\<close>

lemma drive_new_streak:
  assumes "isRunning s" "webcam s = Some w" "rafPending s = [h]"
    and "\<forall>lt. lastTop s = Some lt \<longrightarrow> name lt \<noteq> l"
    and "\<forall>f \<in> set (f0 # fs). qualifies (threshold s) l f"
    and "\<exists>f \<in> set fs. stableWindowMs s \<le> elapsedSince f (now f0)"
  shows "\<exists>k info s'. drive s (f0 # fs) = (replicate (Suc k) Continue @ [Lock info], s')
      \<and> lockClassName info = l \<and> threshold s \<le> lockProb info
      \<and> locked s' \<and> \<not> isRunning s' \<and> rafPending s' = []"
proof -
  let ?s0 = "s\<lparr>rafPending := []\<rparr>"
  obtain p where p: "topPrediction f0 = Some p" "className p = l" "threshold s \<le> probability p"
    using assms(5) by (auto simp: qualifies_iff)
  have "case lastTop ?s0 of None \<Rightarrow> True
        | Some lt \<Rightarrow> name lt \<noteq> className p \<or> probability p < threshold ?s0"
    using assms(4) p(2) by (auto split: option.splits)
  from loop_establish[of ?s0 w f0 p, OF _ _ p(1) this]
  obtain s1 where s1: "loop ?s0 f0 = (Continue, s1)" "isRunning s1" "webcam s1 = Some w"
      "threshold s1 = threshold s" "stableWindowMs s1 = stableWindowMs s"
      "rafPending s1 = [Suc (rafCounter s)]"
      "lastTop s1 = Some \<lparr>name = l, since = now f0, prob = probability p\<rparr>"
    using assms(1,2) p(2,3) by auto
  let ?lt = "\<lparr>name = l, since = now f0, prob = probability p\<rparr>"
  have "\<forall>f \<in> set fs. qualifies (threshold s1) (name ?lt) f"
    using assms(5) s1(4) by simp
  moreover have "\<exists>f \<in> set fs. stableWindowMs s1 \<le> elapsedSince f (since ?lt)"
    using assms(6) s1(5) by simp
  ultimately obtain k info s' where d: "drive s1 fs = (replicate k Continue @ [Lock info], s')"
      "lockClassName info = name ?lt" "threshold s1 \<le> lockProb info"
      "locked s'" "\<not> isRunning s'" "rafPending s' = []"
    using drive_streak[OF s1(2,3,6,7)] by blast
  have "drive s (f0 # fs) = (replicate (Suc k) Continue @ [Lock info], s')"
    using assms(3) s1(1) d(1) by simp
  then show ?thesis using d s1(4) by auto
qed

lemma start_ok:

  assumes "model s \<noteq> None \<or> loadOk env" "cameraError env = None"
  shows "\<exists>s2. start s env = (Started (fst (loop s2 (firstFrame env))), snd (loop s2 (firstFrame env)))
      \<and> isRunning s2 \<and> webcam s2 = Some \<lparr>held = True, stopThrows = camStopThrows env\<rparr>
      \<and> lastTop s2 = None \<and> \<not> locked s2 \<and> threshold s2 = threshold s
      \<and> stableWindowMs s2 = stableWindowMs s \<and> rafPending s2 = rafPending s"
  using assms
  by (auto simp: start_def openCamera_def afterCamera_def beginCamera_def loadModel_def tm_note_def Let_def split_beta
           split: option.splits)



lemma loop_lock_only_after_candidate:
  assumes "loop s f = (Lock info, s')"
  shows "\<exists>lt. lastTop s = Some lt \<and> name lt = lockClassName info \<and> lastTop s' = Some lt
           \<and> stableWindowMs s \<le> elapsedSince f (since lt)"
proof -
  from assms obtain w preds p rest where a: "isRunning s" "webcam s = Some w"
      "predict f = Some preds" "sortPreds preds = p # rest"
      "stability (overlays (p # rest) s) (className p) (probability p) f = (Lock info, s')"
    by (auto simp: loop_def afterPredict_def split: if_splits option.splits list.splits)
  let ?s = "overlays (p # rest) s"
  from a(5) obtain lt where lt: "lastTop ?s = Some lt" "name lt = className p"
      "stableWindowMs ?s \<le> elapsedSince f (since lt)"
      "lockNow ?s (className p) (probability p) f = (Lock info, s')"
    by (auto simp: stability_def split: option.splits if_splits)
  obtain s2 where "lockNow ?s (className p) (probability p) f
      = (Lock (LockInfo (className p) (probability p) (date f)), s2)" "lastTop s2 = lastTop ?s"
    using lockNow_result[of ?s "className p" "probability p" f] by blast
  with lt show ?thesis by (auto simp: overlays_fields)
qed




section \<open>The claims about the scanner\<close>

lemmas scanner_eval =
  session_def start_def newTMScanner_def exCfg_def exEnv_def oneClass_def twoClass_def
  failedFrame_def emptyFrame_def exRunning_def exLoaded_def
  loadModel_def openCamera_def beginCamera_def afterCamera_def startCatch_def
  loop_def afterPredict_def tm_note_def tm_error_def consoleError_def
  sortPreds_def overlays_def stability_def restartStreak_def requestAnimationFrame_def
  lockNow_def stop_def webcam_stop_def freezeOverlay_def cancelAnimationFrame_def
  topPrediction_def isLock_def Let_def

lemmas rank_eval = qualifies_def hasTopLabel_def rankedFirst_def All_less_Suc Ex_less_Suc

text \<open>
  Claim C1. Take a scanner with no frame callback of an earlier run pending, and a
  \<^verbatim>\<open>start\<close> that succeeds. The stream of frames, the first being the one of the first
  cycle, consists of frames \<open>pre\<close> followed by a streak \<open>f0 # fs\<close>. Through \<open>pre\<close> (when it
  is not empty) every cycle continued, and in its last frame the top-ranked entry does
  not have the label \<open>l\<close> at or above the threshold, so the streak begins at \<open>f0\<close>. In
  every frame of the streak the top-ranked entry (the entry of highest probability, the
  first of them in the model's order) has the label \<open>l\<close> with a probability at or above
  the threshold (equality included), and at some frame of the streak after \<open>f0\<close> the time
  elapsed since \<open>f0\<close> is at least the stability window. Then the run consists of cycles
  that continue followed by exactly one cycle that calls \<^verbatim>\<open>onLock\<close>, with the label \<open>l\<close>
  and a probability at or above the threshold; the scanner is then locked and not
  running, no callback is pending, so no later frame is evaluated, and a direct call of
  \<^verbatim>\<open>loop\<close> returns at its first line.
\<close>

theorem sustained_streak_locks_once:
  assumes "rafPending s = []"
    and "model s \<noteq> None \<or> loadOk env" and "cameraError env = None"
    and "firstFrame env # rest = pre @ f0 # fs"
    and "pre \<noteq> [] \<longrightarrow>
           fst (session s env (tl pre)) = replicate (length pre) Continue
           \<and> \<not> qualifies (threshold s) l (last pre)"
    and "\<forall>f \<in> set (f0 # fs). qualifies (threshold s) l f"
    and "\<exists>f \<in> set fs. stableWindowMs s \<le> elapsedSince f (now f0)"
  shows "\<exists>k info s'.
           session s env rest = (replicate (length pre + Suc k) Continue @ [Lock info], s')
           \<and> length (filter isLock (fst (session s env rest))) = 1
           \<and> lockClassName info = l \<and> threshold s \<le> lockProb info
           \<and> locked s' \<and> \<not> isRunning s'
           \<and> (\<forall>more. drive s' more = ([], s'))
           \<and> (\<forall>f. loop s' f = (NotRunning, s'))"
proof -
  let ?g = "firstFrame env"
  let ?w = "\<lparr>held = True, stopThrows = camStopThrows env\<rparr>"
  obtain s2 where s2: "start s env = (Started (fst (loop s2 ?g)), snd (loop s2 ?g))"
      "isRunning s2" "webcam s2 = Some ?w"
      "lastTop s2 = None" "threshold s2 = threshold s" "stableWindowMs s2 = stableWindowMs s"
      "rafPending s2 = rafPending s"
    using start_ok[OF assms(2,3)] by blast
  have ses: "session s env fr = (fst (loop s2 ?g) # fst (drive (snd (loop s2 ?g)) fr),
                                 snd (drive (snd (loop s2 ?g)) fr))" for fr
    by (simp add: session_def s2(1) split_beta)
  have core: "\<exists>k info s'.
           session s env rest = (replicate (length pre + Suc k) Continue @ [Lock info], s')
           \<and> lockClassName info = l \<and> threshold s \<le> lockProb info
           \<and> locked s' \<and> \<not> isRunning s' \<and> rafPending s' = []"
  proof (cases pre)
    case Nil
    then have fr: "?g = f0" "rest = fs" using assms(4) by simp_all
    obtain p where p: "topPrediction f0 = Some p" "className p = l" "threshold s \<le> probability p"
      using assms(6) by (auto simp: qualifies_iff)
    have "case lastTop s2 of None \<Rightarrow> True
          | Some lt \<Rightarrow> name lt \<noteq> className p \<or> probability p < threshold s2"
      by (simp add: s2(4))
    from loop_establish[OF s2(2,3) p(1) this]
    obtain s3 where s3: "loop s2 f0 = (Continue, s3)" "isRunning s3" "webcam s3 = Some ?w"
        "threshold s3 = threshold s" "stableWindowMs s3 = stableWindowMs s"
        "rafPending s3 = [Suc (rafCounter s2)]"
        "lastTop s3 = Some \<lparr>name = l, since = now f0, prob = probability p\<rparr>"
      using p(2,3) s2(5,6,7) assms(1) by auto
    let ?lt = "\<lparr>name = l, since = now f0, prob = probability p\<rparr>"
    have "\<forall>f \<in> set fs. qualifies (threshold s3) (name ?lt) f"
      using assms(6) s3(4) by simp
    moreover have "\<exists>f \<in> set fs. stableWindowMs s3 \<le> elapsedSince f (since ?lt)"
      using assms(7) s3(5) by simp
    ultimately obtain k info s' where d: "drive s3 fs = (replicate k Continue @ [Lock info], s')"
        "lockClassName info = name ?lt" "threshold s3 \<le> lockProb info"
        "locked s'" "\<not> isRunning s'" "rafPending s' = []"
      using drive_streak[OF s3(2,3,6,7)] by blast
    have "session s env rest = (replicate (length pre + Suc k) Continue @ [Lock info], s')"
      using fr s3(1) d(1) Nil by (simp add: ses)
    then show ?thesis using d s3(4) by auto
  next
    case (Cons g pre')
    then have fr: "?g = g" "rest = pre' @ f0 # fs" using assms(4) by simp_all
    have hyp: "fst (session s env pre') = replicate (Suc (length pre')) Continue"
        "\<not> qualifies (threshold s) l (last pre)"
      using assms(5) Cons by simp_all
    obtain d0 s3 where l0: "loop s2 ?g = (d0, s3)" by (cases "loop s2 ?g")
    have d0: "d0 = Continue"
      and dpre: "fst (drive s3 pre') = replicate (length pre') Continue"
      using hyp(1) l0 by (simp_all add: ses)
    from loop_continue_inv[of s2 ?g s3] l0 d0
    have s3: "isRunning s3" "webcam s3 = Some ?w" "threshold s3 = threshold s"
        "stableWindowMs s3 = stableWindowMs s" "rafPending s3 = [Suc (rafCounter s2)]"
        "\<forall>lt. lastTop s3 = Some lt \<longrightarrow> qualifies (threshold s) (name lt) g"
      using s2(3,5,6,7) assms(1) fr(1) by simp_all
    let ?sa = "snd (drive s3 pre')"
    have sa: "isRunning ?sa \<and> webcam ?sa = Some ?w \<and> (\<exists>h. rafPending ?sa = [h])
        \<and> threshold ?sa = threshold s \<and> stableWindowMs ?sa = stableWindowMs s
        \<and> (\<forall>lt. lastTop ?sa = Some lt \<longrightarrow> qualifies (threshold s) (name lt) (last pre))"
    proof (cases "pre' = []")
      case True
      then show ?thesis using s3 Cons by simp
    next
      case False
      from drive_all_continue[OF s3(1,2,5) dpre False]
      show ?thesis using s3(3,4) False Cons by simp
    qed
    then obtain h where h: "rafPending ?sa = [h]" by blast
    have other: "\<forall>lt. lastTop ?sa = Some lt \<longrightarrow> name lt \<noteq> l"
      using sa hyp(2) by auto
    have "\<forall>f \<in> set (f0 # fs). qualifies (threshold ?sa) l f"
      using assms(6) sa by simp
    moreover have "\<exists>f \<in> set fs. stableWindowMs ?sa \<le> elapsedSince f (now f0)"
      using assms(7) sa by simp
    ultimately obtain k info s' where
        d: "drive ?sa (f0 # fs) = (replicate (Suc k) Continue @ [Lock info], s')"
        "lockClassName info = l" "threshold ?sa \<le> lockProb info"
        "locked s'" "\<not> isRunning s'" "rafPending s' = []"
      using drive_new_streak[of ?sa ?w h l f0 fs] sa h other by blast
    have "drive s3 rest
            = (replicate (length pre') Continue @ replicate (Suc k) Continue @ [Lock info], s')"
      using fr(2) dpre d(1) by (simp add: drive_append)
    then have "session s env rest
            = (Continue # replicate (length pre') Continue @ replicate (Suc k) Continue
                 @ [Lock info], s')"
      using l0 d0 by (simp add: ses)
    also have "Continue # replicate (length pre') Continue @ replicate (Suc k) Continue
                 @ [Lock info]
            = replicate (length pre + Suc k) Continue @ [Lock info]"
      using Cons by (simp add: replicate_add replicate_append_same)
    finally show ?thesis using d sa by auto
  qed
  then obtain k info s' where
      r: "session s env rest = (replicate (length pre + Suc k) Continue @ [Lock info], s')"
      "lockClassName info = l" "threshold s \<le> lockProb info"
      "locked s'" "\<not> isRunning s'" "rafPending s' = []"
    by blast
  have "length (filter isLock (fst (session s env rest))) = 1"
    by (simp add: r(1) isLock_def)
  moreover have "\<forall>more. drive s' more = ([], s')"
    using r(6) by (simp add: drive_nothing_pending)
  moreover have "\<forall>f. loop s' f = (NotRunning, s')"
    using r(5) by (simp add: loop_not_running)
  ultimately show ?thesis using r by blast
qed

theorem sustained_streak_locks_once_witness:
  "rafPending (newTMScanner exCfg) = []
   \<and> \<not> qualifies (threshold (newTMScanner exCfg)) ''cat''
         (twoClass ''dog'' (99/100) ''cat'' (1/100) 0)
   \<and> qualifies (threshold (newTMScanner exCfg)) ''cat''
         (twoClass ''dog'' (2/100) ''cat'' (98/100) 100)
   \<and> fst (session (newTMScanner exCfg) (exEnv (twoClass ''dog'' (99/100) ''cat'' (1/100) 0))
        [twoClass ''dog'' (2/100) ''cat'' (98/100) 100,
         twoClass ''dog'' (2/100) ''cat'' (98/100) 600,
         twoClass ''dog'' (2/100) ''cat'' (98/100) 1100,
         twoClass ''dog'' (2/100) ''cat'' (98/100) 1200])
       = [Continue, Continue, Continue, Lock (LockInfo ''cat'' (98/100) 0)]
   \<and> (\<exists>k info s'.
         session (newTMScanner exCfg) (exEnv (twoClass ''dog'' (99/100) ''cat'' (1/100) 0))
           [twoClass ''dog'' (2/100) ''cat'' (98/100) 100,
            twoClass ''dog'' (2/100) ''cat'' (98/100) 600,
            twoClass ''dog'' (2/100) ''cat'' (98/100) 1100,
            twoClass ''dog'' (2/100) ''cat'' (98/100) 1200]
           = (replicate (1 + Suc k) Continue @ [Lock info], s')
         \<and> lockClassName info = ''cat'' \<and> threshold (newTMScanner exCfg) \<le> lockProb info
         \<and> locked s' \<and> \<not> isRunning s'
         \<and> (\<forall>more. drive s' more = ([], s')))"
proof -
  let ?s = "newTMScanner exCfg"
  let ?g = "twoClass ''dog'' (99/100) ''cat'' (1/100) 0"
  let ?env = "exEnv ?g"
  let ?f = "twoClass ''dog'' (2/100) ''cat'' (98/100) 100"
  let ?fs = "[twoClass ''dog'' (2/100) ''cat'' (98/100) 600,
              twoClass ''dog'' (2/100) ''cat'' (98/100) 1100,
              twoClass ''dog'' (2/100) ''cat'' (98/100) 1200]"
  have h1: "rafPending ?s = []" by (simp add: newTMScanner_def)
  have h2: "model ?s \<noteq> None \<or> loadOk ?env" by (simp add: exEnv_def)
  have h3: "cameraError ?env = None" by (simp add: exEnv_def)
  have h4: "firstFrame ?env # (?f # ?fs) = [?g] @ ?f # ?fs" by (simp add: exEnv_def)
  have n: "\<not> qualifies (threshold ?s) ''cat'' ?g"
    by (simp add: rank_eval twoClass_def newTMScanner_def)
  have c: "fst (session ?s ?env []) = [Continue]"
    by (simp add: scanner_eval)
  have h5: "[?g] \<noteq> [] \<longrightarrow>
           fst (session ?s ?env (tl [?g])) = replicate (length [?g]) Continue
           \<and> \<not> qualifies (threshold ?s) ''cat'' (last [?g])"
    using n c by simp
  have q: "qualifies (threshold ?s) ''cat'' (twoClass ''dog'' (2/100) ''cat'' (98/100) t)" for t
    by (simp add: rank_eval twoClass_def newTMScanner_def)
  have h6: "\<forall>f \<in> set (?f # ?fs). qualifies (threshold ?s) ''cat'' f"
    using q by simp
  have h7: "\<exists>f \<in> set ?fs. stableWindowMs ?s \<le> elapsedSince f (now ?f)"
    by (simp add: twoClass_def newTMScanner_def)
  have e: "fst (session ?s ?env (?f # ?fs))
             = [Continue, Continue, Continue, Lock (LockInfo ''cat'' (98/100) 0)]"
    by (simp add: scanner_eval)
  from sustained_streak_locks_once[OF h1 h2 h3 h4 h5 h6 h7]
  have "\<exists>k info s'.
         session ?s ?env (?f # ?fs) = (replicate (1 + Suc k) Continue @ [Lock info], s')
         \<and> lockClassName info = ''cat'' \<and> threshold ?s \<le> lockProb info
         \<and> locked s' \<and> \<not> isRunning s'
         \<and> (\<forall>more. drive s' more = ([], s'))"
    by auto
  then show ?thesis using h1 n q[of 100] e by blast
qed






text \<open>
  Claim C10. A cycle that calls \<^verbatim>\<open>onLock\<close> found the candidate already set, with the
  label it locks, and leaves it as it was: the candidate was established by an earlier
  cycle. A cycle of a running scanner that establishes the candidate (there was none, or
  it had another label, and the probability reaches the threshold) continues, does
  not lock, and sets \<^verbatim>\<open>since\<close> to the current time. This holds for every window, zero
  included.
\<close>

theorem lock_only_on_later_call:
  "(\<forall>info s'. loop s f = (Lock info, s') \<longrightarrow>
      (\<exists>lt. lastTop s = Some lt \<and> name lt = lockClassName info \<and> lastTop s' = Some lt
         \<and> stableWindowMs s \<le> elapsedSince f (since lt)))
   \<and> (\<forall>w p. isRunning s \<and> webcam s = Some w \<and> topPrediction f = Some p
          \<and> threshold s \<le> probability p
          \<and> (\<forall>lt. lastTop s = Some lt \<longrightarrow> name lt \<noteq> className p)
        \<longrightarrow> (\<exists>s'. loop s f = (Continue, s') \<and> locked s' = locked s
               \<and> lastTop s' = Some \<lparr>name = className p, since = now f, prob = probability p\<rparr>))"
proof -
  have "\<exists>s'. loop s f = (Continue, s') \<and> locked s' = locked s
               \<and> lastTop s' = Some \<lparr>name = className p, since = now f, prob = probability p\<rparr>"
    if a: "isRunning s" "webcam s = Some w" "topPrediction f = Some p"
       "threshold s \<le> probability p" "\<forall>lt. lastTop s = Some lt \<longrightarrow> name lt \<noteq> className p"
    for w p
  proof -
    have "case lastTop s of None \<Rightarrow> True
          | Some lt \<Rightarrow> name lt \<noteq> className p \<or> probability p < threshold s"
      using a(5) by (auto split: option.splits)
    from loop_establish[OF a(1,2,3) this] show ?thesis using a(4) by auto
  qed
  then show ?thesis using loop_lock_only_after_candidate[of s f] by blast
qed

theorem lock_only_on_later_call_witness:
  "(\<exists>s1. loop (exRunning 0) (oneClass ''cat'' (99/100) 7) = (Continue, s1)
         \<and> lastTop s1 = Some \<lparr>name = ''cat'', since = 7, prob = 99/100\<rparr>
         \<and> \<not> locked s1
         \<and> (\<exists>info s2. loop (s1\<lparr>rafPending := []\<rparr>) (oneClass ''cat'' (99/100) 7) = (Lock info, s2)
              \<and> lockClassName info = ''cat''
              \<and> lastTop s2 = Some \<lparr>name = ''cat'', since = 7, prob = 99/100\<rparr>))"
proof -
  let ?f = "oneClass ''cat'' (99/100) 7"
  let ?p = "\<lparr>className = ''cat'', probability = 99/100\<rparr>"
  have pre: "isRunning (exRunning 0) \<and> webcam (exRunning 0) = Some \<lparr>held = True, stopThrows = False\<rparr>
      \<and> topPrediction ?f = Some ?p \<and> threshold (exRunning 0) \<le> probability ?p
      \<and> (\<forall>lt. lastTop (exRunning 0) = Some lt \<longrightarrow> name lt \<noteq> className ?p)"
    by (simp add: scanner_eval)
  from lock_only_on_later_call[of "exRunning 0" ?f]
  have "\<forall>w p. isRunning (exRunning 0) \<and> webcam (exRunning 0) = Some w \<and> topPrediction ?f = Some p
          \<and> threshold (exRunning 0) \<le> probability p
          \<and> (\<forall>lt. lastTop (exRunning 0) = Some lt \<longrightarrow> name lt \<noteq> className p)
        \<longrightarrow> (\<exists>s'. loop (exRunning 0) ?f = (Continue, s') \<and> locked s' = locked (exRunning 0)
               \<and> lastTop s' = Some \<lparr>name = className p, since = now ?f, prob = probability p\<rparr>)"
    by blast
  from this[rule_format, OF pre]
  obtain s1 where s1: "loop (exRunning 0) ?f = (Continue, s1)" "locked s1 = locked (exRunning 0)"
      "lastTop s1 = Some \<lparr>name = ''cat'', since = 7, prob = 99/100\<rparr>"
    by (auto simp: oneClass_def)
  have nl: "\<not> locked s1" using s1(2) by (simp add: scanner_eval)
  have s1eq: "s1 = snd (loop (exRunning 0) ?f)" using s1(1) by simp
  obtain info s2 where l: "loop (s1\<lparr>rafPending := []\<rparr>) ?f = (Lock info, s2)"
    unfolding s1eq by (simp add: scanner_eval)
  from lock_only_on_later_call[of "s1\<lparr>rafPending := []\<rparr>" ?f] l
  obtain lt where "lastTop (s1\<lparr>rafPending := []\<rparr>) = Some lt" "name lt = lockClassName info"
      "lastTop s2 = Some lt"
    by blast
  then have "lockClassName info = ''cat''"
      "lastTop s2 = Some \<lparr>name = ''cat'', since = 7, prob = 99/100\<rparr>"
    using s1(3) by auto
  then show ?thesis using s1(1,3) nl l by blast
qed

text \<open>
  Claim C3. A run in which the second prediction fails: the failure is reported and the
  scanner still counts as running with the camera held, but the cycle returned without
  requesting another animation frame, so the later frames are never evaluated.
\<close>

theorem predict_failure_ends_cycle:
  "session (newTMScanner exCfg) (exEnv (oneClass ''cat'' (99/100) 0))
     [failedFrame 16, oneClass ''cat'' (99/100) 32,
      oneClass ''cat'' (99/100) 1100]
   = ([Continue, PredictFailed], exAfterFailure)
   \<and> isRunning exAfterFailure \<and> webcam exAfterFailure = Some \<lparr>held = True, stopThrows = False\<rparr>
   \<and> rafPending exAfterFailure = []
   \<and> ErrorNote ''Prediction failed (see console).'' \<in> set (trace exAfterFailure)"
  by (simp add: exAfterFailure_def scanner_eval)

text \<open>
  Claim C4. A cycle of a running scanner whose prediction array is empty ends with a
  \<^verbatim>\<open>TypeError\<close>; the candidate is left as it was and no frame is requested.
\<close>

theorem empty_predictions_throw:
  "loop ((exRunning 1000)\<lparr>lastTop := Some \<lparr>name = ''cat'', since = 0, prob = 99/100\<rparr>\<rparr>)
        (emptyFrame 16)
   = (Threw TypeError, (exRunning 1000)\<lparr>lastTop := Some \<lparr>name = ''cat'', since = 0, prob = 99/100\<rparr>\<rparr>)"
  by (simp add: scanner_eval)

section \<open>Properties of the demo flow\<close>

lemma stop_slot_cases:
  "(case slot of None \<Rightarrow> Inr None | Some sc \<Rightarrow> map_sum id Some (stop sc))
     = Inr (case slot of None \<Rightarrow> None | Some sc \<Rightarrow> Some (projr (stop sc)))"
proof (cases slot)
  case None
  then show ?thesis by simp
next
  case (Some sc)
  obtain s' where "stop sc = Inr s'" using stop_total by blast
  then show ?thesis using Some by simp
qed

lemma startDemoFlow_returns:
  "\<exists>d'. startDemoFlow env d = Returned d' \<and> activeView d' = activeView d
      \<and> lockedFace d' = None \<and> lockedId d' = None \<and> handlersInstalled d'
      \<and> demoFaceScanner d' \<noteq> None
      \<and> (demoIdScanner d' = None) = (demoIdScanner d = None)
      \<and> verifiedText d' = verifiedText d"
  by (simp add: startDemoFlow_def Let_def addLog_def Let_def stop_slot_cases split: option.split)

lemma faceOnLock_returns:
  "\<exists>d'. faceOnLock info env d = Returned d' \<and> activeView d' = activeView d
      \<and> lockedFace d' = Some info \<and> lockedId d' = lockedId d
      \<and> handlersInstalled d' = handlersInstalled d
      \<and> demoFaceScanner d' = demoFaceScanner d
      \<and> demoIdScanner d' \<noteq> None
      \<and> verifiedText d' = verifiedText d"
  by (simp add: faceOnLock_def Let_def addLog_def Let_def stop_slot_cases)

lemma faceScanAgain_state:
  "activeView (stateOf (faceScanAgain env d)) = activeView d
   \<and> lockedFace (stateOf (faceScanAgain env d)) = None
   \<and> lockedId (stateOf (faceScanAgain env d)) = None
   \<and> handlersInstalled (stateOf (faceScanAgain env d)) = handlersInstalled d
   \<and> (demoFaceScanner (stateOf (faceScanAgain env d)) = None) = (demoFaceScanner d = None)
   \<and> verifiedText (stateOf (faceScanAgain env d)) = verifiedText d"
  by (simp add: faceScanAgain_def Let_def stop_slot_cases split: option.split)

lemma idScanAgain_state:
  "activeView (stateOf (idScanAgain env d)) = activeView d
   \<and> lockedFace (stateOf (idScanAgain env d)) = lockedFace d
   \<and> lockedId (stateOf (idScanAgain env d)) = None
   \<and> handlersInstalled (stateOf (idScanAgain env d)) = handlersInstalled d
   \<and> demoFaceScanner (stateOf (idScanAgain env d)) = demoFaceScanner d
   \<and> verifiedText (stateOf (idScanAgain env d)) = verifiedText d"
  by (simp add: idScanAgain_def Let_def split: option.split)

lemma safeStop_None: "(safeStop slot = None) = (slot = None)"
  by (simp add: safeStop_def split: option.split sum.split)

lemma demoBack_state:
  "activeView (demoBack d) = ViewHome
   \<and> lockedFace (demoBack d) = lockedFace d \<and> lockedId (demoBack d) = lockedId d
   \<and> handlersInstalled (demoBack d) = handlersInstalled d
   \<and> (demoFaceScanner (demoBack d) = None) = (demoFaceScanner d = None)
   \<and> (demoIdScanner (demoBack d) = None) = (demoIdScanner d = None)"
  by (simp add: demoBack_def safeStop_None)

text \<open>The two branches of the verify handler when both locks are present.\<close>

lemma checkVerify_match:
  assumes "lockedFace d = Some face" "lockedId d = Some ident"
    and "normalizeName (lockClassName face) = normalizeName (lockClassName ident)"
    and "normalizeName (lockClassName face) \<noteq> []"
  shows "checkVerify env d
           = Returned (goVerified (normalizeName (lockClassName face)) (d\<lparr>badgeVerify := Done\<rparr>))"
  using assms by (simp add: checkVerify_def Let_def)

lemma checkVerify_mismatch:
  assumes "lockedFace d = Some face" "lockedId d = Some ident"
    and "normalizeName (lockClassName face) \<noteq> normalizeName (lockClassName ident)
         \<or> normalizeName (lockClassName face) = []"
  shows "checkVerify env d =
     (case demoIdScanner d of
        None \<Rightarrow> Raised TypeError
                 (d\<lparr>alerts := alerts d @ [''Mismatch! Please rescan ID.''],
                    lockedId := None, idScanAgainShown := False,
                    badgeVerify := Pending, badgeId := Active\<rparr>)
      | Some sc \<Rightarrow> Returned
                 (d\<lparr>alerts := alerts d @ [''Mismatch! Please rescan ID.''],
                    lockedId := None, idScanAgainShown := False,
                    badgeVerify := Pending, badgeId := Active,
                    demoIdScanner := Some (started sc env)\<rparr>))"
  using assms by (auto simp: checkVerify_def Let_def split: option.split)

lemma checkVerify_missing:
  assumes "lockedFace d = None \<or> lockedId d = None"
  shows "checkVerify env d = Returned (d\<lparr>verifyStatus := ''Both face & ID must be locked!''\<rparr>)"
  using assms by (auto simp: checkVerify_def split: option.split)

lemma goVerified_state:
  "activeView (goVerified nm d) = ViewVerified
   \<and> verifiedText (goVerified nm d)
       = Some (''The person and ID belong to <strong>'' @ escapeHtml (toUpperCase nm)
               @ ''</strong>'')
   \<and> lockedFace (goVerified nm d) = lockedFace d \<and> lockedId (goVerified nm d) = lockedId d
   \<and> handlersInstalled (goVerified nm d) = handlersInstalled d
   \<and> (demoFaceScanner (goVerified nm d) = None) = (demoFaceScanner d = None)
   \<and> (demoIdScanner (goVerified nm d) = None) = (demoIdScanner d = None)"
  by (simp add: goVerified_def addLog_def Let_def safeStop_None)

lemma checkVerify_view:
  assumes "activeView (stateOf (checkVerify env d)) = ViewVerified" "activeView d \<noteq> ViewVerified"
  shows "\<exists>face ident. lockedFace d = Some face \<and> lockedId d = Some ident
     \<and> normalizeName (lockClassName face) = normalizeName (lockClassName ident)
     \<and> normalizeName (lockClassName face) \<noteq> []
     \<and> verifiedText (stateOf (checkVerify env d)) = Some (''The person and ID belong to <strong>''
               @ escapeHtml (toUpperCase (normalizeName (lockClassName face)))
               @ ''</strong>'')"
proof (cases "lockedFace d = None \<or> lockedId d = None")
  case True
  then show ?thesis using assms by (simp add: checkVerify_missing)
next
  case False
  then obtain face ident where l: "lockedFace d = Some face" "lockedId d = Some ident" by auto
  show ?thesis
  proof (cases "normalizeName (lockClassName face) = normalizeName (lockClassName ident)
                \<and> normalizeName (lockClassName face) \<noteq> []")
    case True
    then have m: "normalizeName (lockClassName face) = normalizeName (lockClassName ident)"
        "normalizeName (lockClassName face) \<noteq> []"
      by auto
    have "checkVerify env d
            = Returned (goVerified (normalizeName (lockClassName face)) (d\<lparr>badgeVerify := Done\<rparr>))"
      by (rule checkVerify_match[OF l m])
    then have "verifiedText (stateOf (checkVerify env d)) = Some (''The person and ID belong to <strong>''
               @ escapeHtml (toUpperCase (normalizeName (lockClassName face)))
               @ ''</strong>'')"
      by (simp add: goVerified_state)
    then show ?thesis using l m by blast
  next
    case False
    then have "normalizeName (lockClassName face) \<noteq> normalizeName (lockClassName ident)
         \<or> normalizeName (lockClassName face) = []" by blast
    from checkVerify_mismatch[OF l this, of env]
    have "activeView (stateOf (checkVerify env d)) = activeView d"
      by (simp split: option.split)
    then show ?thesis using assms by simp
  qed
qed

lemma faceCycle_state:
  "activeView (stateOf (faceCycle f env d)) = activeView d
   \<and> verifiedText (stateOf (faceCycle f env d)) = verifiedText d
   \<and> handlersInstalled (stateOf (faceCycle f env d)) = handlersInstalled d
   \<and> lockedId (stateOf (faceCycle f env d)) = lockedId d
   \<and> (demoFaceScanner (stateOf (faceCycle f env d)) = None) = (demoFaceScanner d = None)
   \<and> (demoIdScanner d \<noteq> None \<longrightarrow> demoIdScanner (stateOf (faceCycle f env d)) \<noteq> None)
   \<and> (lockedFace (stateOf (faceCycle f env d)) \<noteq> None \<longrightarrow>
        lockedFace d \<noteq> None \<or> demoFaceScanner d \<noteq> None)"
proof (cases "demoFaceScanner d")
  case None
  then show ?thesis by (simp add: faceCycle_def)
next
  case (Some sc)
  show ?thesis
  proof (cases "rafPending sc")
    case Nil
    then show ?thesis using Some by (simp add: faceCycle_def)
  next
    case (Cons h hs)
    obtain e sc' where l: "loop (sc\<lparr>rafPending := hs\<rparr>) f = (e, sc')" by (cases "loop (sc\<lparr>rafPending := hs\<rparr>) f")
    show ?thesis
    proof (cases e)
      case (Lock info)
      obtain d' where "faceOnLock info env (d\<lparr>demoFaceScanner := Some sc'\<rparr>) = Returned d'"
        "activeView d' = activeView d" "lockedId d' = lockedId d"
        "handlersInstalled d' = handlersInstalled d" "demoFaceScanner d' = Some sc'"
        "demoIdScanner d' \<noteq> None" "verifiedText d' = verifiedText d"
        using faceOnLock_returns[of info env "d\<lparr>demoFaceScanner := Some sc'\<rparr>"] by auto
      then show ?thesis using Some Cons l Lock by (simp add: faceCycle_def)
    qed (use Some Cons l in \<open>simp_all add: faceCycle_def\<close>)
  qed
qed

lemma idCycle_state:
  "activeView (stateOf (idCycle f d)) = activeView d
   \<and> verifiedText (stateOf (idCycle f d)) = verifiedText d
   \<and> handlersInstalled (stateOf (idCycle f d)) = handlersInstalled d
   \<and> lockedFace (stateOf (idCycle f d)) = lockedFace d
   \<and> demoFaceScanner (stateOf (idCycle f d)) = demoFaceScanner d
   \<and> (demoIdScanner (stateOf (idCycle f d)) = None) = (demoIdScanner d = None)
   \<and> (lockedId (stateOf (idCycle f d)) \<noteq> None \<longrightarrow> lockedId d \<noteq> None \<or> demoIdScanner d \<noteq> None)"
proof (cases "demoIdScanner d")
  case None
  then show ?thesis by (simp add: idCycle_def)
next
  case (Some sc)
  show ?thesis
  proof (cases "rafPending sc")
    case Nil
    then show ?thesis using Some by (simp add: idCycle_def)
  next
    case (Cons h hs)
    obtain e sc' where l: "loop (sc\<lparr>rafPending := hs\<rparr>) f = (e, sc')" by (cases "loop (sc\<lparr>rafPending := hs\<rparr>) f")
    show ?thesis
      using Some Cons l by (cases e) (simp_all add: idCycle_def idOnLock_def addLog_def Let_def)
  qed
qed

lemma checkVerify_keeps:
  "lockedFace (stateOf (checkVerify env d)) = lockedFace d
   \<and> handlersInstalled (stateOf (checkVerify env d)) = handlersInstalled d
   \<and> (demoFaceScanner (stateOf (checkVerify env d)) = None) = (demoFaceScanner d = None)
   \<and> (demoIdScanner (stateOf (checkVerify env d)) = None) = (demoIdScanner d = None)
   \<and> (lockedId (stateOf (checkVerify env d)) \<noteq> None \<longrightarrow> lockedId d \<noteq> None)"
proof (cases "lockedFace d = None \<or> lockedId d = None")
  case True
  then show ?thesis by (auto simp: checkVerify_missing)
next
  case False
  then obtain face ident where l: "lockedFace d = Some face" "lockedId d = Some ident" by auto
  show ?thesis
  proof (cases "normalizeName (lockClassName face) = normalizeName (lockClassName ident)
                \<and> normalizeName (lockClassName face) \<noteq> []")
    case True
    then have m: "normalizeName (lockClassName face) = normalizeName (lockClassName ident)"
        "normalizeName (lockClassName face) \<noteq> []"
      by auto
    show ?thesis
      using l by (simp add: checkVerify_match[OF l m] goVerified_state)
  next
    case False
    then have "normalizeName (lockClassName face) \<noteq> normalizeName (lockClassName ident)
         \<or> normalizeName (lockClassName face) = []" by blast
    from checkVerify_mismatch[OF l this, of env]
    show ?thesis using l by (simp split: option.split)
  qed
qed

lemma wired_step:
  assumes w: "wired d"
  shows "wired (stateOf (handle d ev))"
proof (cases ev)
  case (BtnDemo env)
  obtain d' where "startDemoFlow env (d\<lparr>activeView := ViewDemo\<rparr>) = Returned d'"
      "lockedFace d' = None" "lockedId d' = None" "handlersInstalled d'"
    using startDemoFlow_returns[of env "d\<lparr>activeView := ViewDemo\<rparr>"] by blast
  then show ?thesis using BtnDemo w by (simp add: wired_def)
next
  case (FaceScanAgain env)
  then show ?thesis
    using faceScanAgain_state[of env d] w by (auto simp: wired_def)
next
  case (IdScanAgain env)
  then show ?thesis
    using idScanAgain_state[of env d] w by (auto simp: wired_def)
next
  case DemoBack
  then show ?thesis
    using demoBack_state[of d] w by (auto simp: wired_def)
next
  case (CheckVerify env)
  then show ?thesis
    using checkVerify_keeps[of env d] w by (auto simp: wired_def)
next
  case (FaceCycle f env)
  then show ?thesis
    using faceCycle_state[of f env d] w by (auto simp: wired_def)
next
  case (IdCycle f)
  then show ?thesis
    using idCycle_state[of f d] w by (auto simp: wired_def)
qed (use w in \<open>simp_all add: wired_def\<close>)

lemma wired_handleAll: "wired d \<Longrightarrow> wired (handleAll d evs)"
  by (induction evs arbitrary: d) (simp_all add: wired_step)

lemma wired_pageLoaded: "wired pageLoaded"
  by (simp add: wired_def pageLoaded_def)

lemma loop_without_candidate:
  assumes "lastTop s = None"
  shows "isRunning (snd (loop s f)) = isRunning s \<and> locked (snd (loop s f)) = locked s"
proof (cases "isRunning s \<and> webcam s \<noteq> None")
  case False
  then show ?thesis by (auto simp: loop_def afterPredict_def)
next
  case True
  then obtain w where rw: "isRunning s" "webcam s = Some w" by auto
  show ?thesis
  proof (cases "topPrediction f")
    case None
    then show ?thesis
      using rw
      by (auto simp: loop_def afterPredict_def topPrediction_def tm_error_def consoleError_def
               split: option.splits list.splits)
  next
    case (Some p)
    have "case lastTop s of None \<Rightarrow> True
          | Some lt \<Rightarrow> name lt \<noteq> className p \<or> probability p < threshold s"
      by (simp add: assms)
    from loop_establish[OF rw Some this] show ?thesis using rw by auto
  qed
qed

lemma started_running:
  assumes "model sc \<noteq> None \<or> loadOk env" "cameraError env = None"
  shows "isRunning (started sc env) \<and> \<not> locked (started sc env)"
proof -
  obtain s2 where s2: "start sc env = (Started (fst (loop s2 (firstFrame env))), snd (loop s2 (firstFrame env)))"
      "isRunning s2" "lastTop s2 = None" "\<not> locked s2"
    using start_ok[OF assms] by blast
  show ?thesis
    using loop_without_candidate[OF s2(3), of "firstFrame env"] s2(1,2,4)
    by (simp add: started_def)
qed

section \<open>The claims about the demo flow\<close>

lemmas demo_eval =
  exFlow_def pageLoaded_def startDemoFlow_def faceOnLock_def idOnLock_def faceScanAgain_def
  idScanAgain_def demoBack_def checkVerify_def goVerified_def faceCycle_def idCycle_def
  safeStop_def started_def addLog_def faceCfg_def idCfg_def

lemma exFlow_locks:
  "lockedFace (exFlow a b) = Some (LockInfo a (99/100) 0)
   \<and> lockedId (exFlow a b) = Some (LockInfo b (99/100) 0)
   \<and> activeView (exFlow a b) = ViewDemo
   \<and> alerts (exFlow a b) = []"
  by (simp add: demo_eval scanner_eval)

text \<open>
  Claim C2. Whatever happens to the demo flow (a button, or a frame callback of either
  scanner), if it moves the page to the verified view from another view, then it is a
  click on the verify button with its handler assigned, both \<^verbatim>\<open>lockedFace\<close> and
  \<^verbatim>\<open>lockedId\<close> present, and their normalized labels equal and not empty; the
  verified view then shows the sentence that \<^verbatim>\<open>goVerified\<close> writes, with that
  normalized label in upper case and escaped. Conversely, such a click does enter the
  verified view.
\<close>

theorem verified_only_by_verify:
  "(activeView (stateOf (handle d ev)) = ViewVerified \<and> activeView d \<noteq> ViewVerified \<longrightarrow>
      (\<exists>env face ident. ev = CheckVerify env \<and> handlersInstalled d
         \<and> lockedFace d = Some face \<and> lockedId d = Some ident
         \<and> normalizeName (lockClassName face) = normalizeName (lockClassName ident)
         \<and> normalizeName (lockClassName face) \<noteq> []
         \<and> verifiedText (stateOf (handle d ev)) = Some (''The person and ID belong to <strong>''
               @ escapeHtml (toUpperCase (normalizeName (lockClassName face)))
               @ ''</strong>'')))
   \<and> (\<forall>env face ident. handlersInstalled d
         \<and> lockedFace d = Some face \<and> lockedId d = Some ident
         \<and> normalizeName (lockClassName face) = normalizeName (lockClassName ident)
         \<and> normalizeName (lockClassName face) \<noteq> []
       \<longrightarrow> activeView (stateOf (handle d (CheckVerify env))) = ViewVerified
           \<and> verifiedText (stateOf (handle d (CheckVerify env)))
               = Some (''The person and ID belong to <strong>''
               @ escapeHtml (toUpperCase (normalizeName (lockClassName face)))
               @ ''</strong>''))"
proof -
  have only: "\<exists>env face ident. ev = CheckVerify env \<and> handlersInstalled d
         \<and> lockedFace d = Some face \<and> lockedId d = Some ident
         \<and> normalizeName (lockClassName face) = normalizeName (lockClassName ident)
         \<and> normalizeName (lockClassName face) \<noteq> []
         \<and> verifiedText (stateOf (handle d ev)) = Some (''The person and ID belong to <strong>''
               @ escapeHtml (toUpperCase (normalizeName (lockClassName face)))
               @ ''</strong>'')"
    if v: "activeView (stateOf (handle d ev)) = ViewVerified" "activeView d \<noteq> ViewVerified"
  proof (cases ev)
    case (BtnDemo env)
    then show ?thesis
      using v startDemoFlow_returns[of env "d\<lparr>activeView := ViewDemo\<rparr>"] by auto
  next
    case (FaceScanAgain env)
    then show ?thesis using v faceScanAgain_state[of env d] by (auto split: if_splits)
  next
    case (IdScanAgain env)
    then show ?thesis using v idScanAgain_state[of env d] by (auto split: if_splits)
  next
    case DemoBack
    then show ?thesis using v demoBack_state[of d] by (auto split: if_splits)
  next
    case (CheckVerify env)
    show ?thesis
    proof (cases "handlersInstalled d")
      case True
      then have "activeView (stateOf (checkVerify env d)) = ViewVerified"
        using v(1) CheckVerify by simp
      from checkVerify_view[OF this v(2)] show ?thesis
        using True CheckVerify by auto
    next
      case False
      then show ?thesis using v CheckVerify by simp
    qed
  next
    case (FaceCycle f env)
    then show ?thesis using v faceCycle_state[of f env d] by auto
  next
    case (IdCycle f)
    then show ?thesis using v idCycle_state[of f d] by auto
  qed (use v in simp_all)
  have enters: "activeView (stateOf (handle d (CheckVerify env))) = ViewVerified
           \<and> verifiedText (stateOf (handle d (CheckVerify env)))
               = Some (''The person and ID belong to <strong>''
               @ escapeHtml (toUpperCase (normalizeName (lockClassName face)))
               @ ''</strong>'')"
    if a: "handlersInstalled d" "lockedFace d = Some face" "lockedId d = Some ident"
      "normalizeName (lockClassName face) = normalizeName (lockClassName ident)"
      "normalizeName (lockClassName face) \<noteq> []"
    for env face ident
    using a(1) by (simp add: checkVerify_match[OF a(2-5)] goVerified_state)
  show ?thesis using only enters by blast
qed

theorem verified_only_by_verify_witness:
  "activeView (exFlow ''Alice '' ''alice'') = ViewDemo
   \<and> activeView (stateOf (handle (exFlow ''Alice '' ''alice'') (CheckVerify (exEnv (oneClass ''x'' 0 0)))))
       = ViewVerified
   \<and> verifiedText (stateOf (handle (exFlow ''Alice '' ''alice'') (CheckVerify (exEnv (oneClass ''x'' 0 0)))))
       = Some ''The person and ID belong to <strong>ALICE</strong>''"
proof -
  let ?d = "exFlow ''Alice '' ''alice''"
  have l: "lockedFace ?d = Some (LockInfo ''Alice '' (99/100) 0)"
      "lockedId ?d = Some (LockInfo ''alice'' (99/100) 0)" "activeView ?d = ViewDemo"
    using exFlow_locks[of "''Alice ''" "''alice''"] by simp_all
  have h: "handlersInstalled ?d" by (simp add: demo_eval scanner_eval)
  have n: "normalizeName ''Alice '' = ''alice''" "normalizeName ''alice'' = ''alice''"
    by (simp_all add: name_eval)
  have pre: "handlersInstalled ?d
         \<and> lockedFace ?d = Some (LockInfo ''Alice '' (99/100) 0)
         \<and> lockedId ?d = Some (LockInfo ''alice'' (99/100) 0)
         \<and> normalizeName (lockClassName (LockInfo ''Alice '' (99/100) 0))
             = normalizeName (lockClassName (LockInfo ''alice'' (99/100) 0))
         \<and> normalizeName (lockClassName (LockInfo ''Alice '' (99/100) 0)) \<noteq> []"
    using l h n by simp
  from verified_only_by_verify[of ?d "BtnVerifiedDone"]
  have "\<forall>env face ident. handlersInstalled ?d
         \<and> lockedFace ?d = Some face \<and> lockedId ?d = Some ident
         \<and> normalizeName (lockClassName face) = normalizeName (lockClassName ident)
         \<and> normalizeName (lockClassName face) \<noteq> []
       \<longrightarrow> activeView (stateOf (handle ?d (CheckVerify env))) = ViewVerified
           \<and> verifiedText (stateOf (handle ?d (CheckVerify env)))
               = Some (''The person and ID belong to <strong>''
               @ escapeHtml (toUpperCase (normalizeName (lockClassName face)))
               @ ''</strong>'')"
    by blast
  from this[rule_format, OF pre, of "exEnv (oneClass ''x'' 0 0)"]
  moreover have "escapeHtml (toUpperCase ''alice'') = ''ALICE''"
    by (simp add: escapeHtml_def replaceAll_def toUpperCase_def toUpperChar_def)
  ultimately show ?thesis using l(3) n by simp
qed

text \<open>
  Claim C6. In a state the page can reach, with both locks present and their normalized
  labels unequal or empty, the verify handler returns after it has raised the mismatch
  alert, cleared \<^verbatim>\<open>lockedId\<close> and called \<^verbatim>\<open>start\<close> on the ID scanner (which then
  runs, unlocked, when its model and camera are available); \<^verbatim>\<open>lockedFace\<close>, the face
  scanner and the active view are as before.
\<close>

theorem mismatch_clears_second_lock:
  assumes "d = handleAll pageLoaded evs"
    and "lockedFace d = Some face" and "lockedId d = Some ident"
    and "normalizeName (lockClassName face) \<noteq> normalizeName (lockClassName ident)
         \<or> normalizeName (lockClassName face) = []"
  shows "\<exists>sc d'. demoIdScanner d = Some sc \<and> handle d (CheckVerify env) = Returned d'
      \<and> alerts d' = alerts d @ [''Mismatch! Please rescan ID.'']
      \<and> lockedId d' = None \<and> lockedFace d' = Some face
      \<and> demoFaceScanner d' = demoFaceScanner d
      \<and> demoIdScanner d' = Some (started sc env)
      \<and> activeView d' = activeView d \<and> badgeId d' = Active \<and> badgeVerify d' = Pending
      \<and> ((model sc \<noteq> None \<or> loadOk env) \<and> cameraError env = None
           \<longrightarrow> isRunning (started sc env) \<and> \<not> locked (started sc env))"
proof -
  have w: "wired d" using assms(1) wired_pageLoaded by (simp add: wired_handleAll)
  then obtain sc where sc: "demoIdScanner d = Some sc" and h: "handlersInstalled d"
    using assms(2,3) by (auto simp: wired_def)
  have "handle d (CheckVerify env) = checkVerify env d" using h by simp
  also have "\<dots> = Returned
                 (d\<lparr>alerts := alerts d @ [''Mismatch! Please rescan ID.''],
                    lockedId := None, idScanAgainShown := False,
                    badgeVerify := Pending, badgeId := Active,
                    demoIdScanner := Some (started sc env)\<rparr>)"
    using checkVerify_mismatch[OF assms(2,3,4), of env] sc by simp
  finally show ?thesis
    using sc assms(2) started_running[of sc env] by simp
qed

theorem mismatch_clears_second_lock_witness:
  "lockedFace (exFlow ''Alice'' ''Bob'') = Some (LockInfo ''Alice'' (99/100) 0)
   \<and> lockedId (exFlow ''Alice'' ''Bob'') = Some (LockInfo ''Bob'' (99/100) 0)
   \<and> (\<exists>sc d'. demoIdScanner (exFlow ''Alice'' ''Bob'') = Some sc
        \<and> handle (exFlow ''Alice'' ''Bob'') (CheckVerify (exEnv (oneClass ''Bob'' (99/100) 0)))
            = Returned d'
        \<and> alerts d' = [''Mismatch! Please rescan ID.'']
        \<and> lockedId d' = None \<and> lockedFace d' = Some (LockInfo ''Alice'' (99/100) 0)
        \<and> demoIdScanner d' = Some (started sc (exEnv (oneClass ''Bob'' (99/100) 0)))
        \<and> isRunning (started sc (exEnv (oneClass ''Bob'' (99/100) 0))))"
proof -
  let ?d = "exFlow ''Alice'' ''Bob''"
  let ?env = "exEnv (oneClass ''Bob'' (99/100) 0)"
  have r: "?d = handleAll pageLoaded
       [BtnDemo (exEnv (oneClass ''Alice'' (99/100) 0)),
        FaceCycle (oneClass ''Alice'' (99/100) 1000) (exEnv (oneClass ''Bob'' (99/100) 0)),
        IdCycle (oneClass ''Bob'' (99/100) 1000)]"
    by (simp only: exFlow_def)
  have l: "lockedFace ?d = Some (LockInfo ''Alice'' (99/100) 0)"
      "lockedId ?d = Some (LockInfo ''Bob'' (99/100) 0)" "alerts ?d = []"
    using exFlow_locks[of "''Alice''" "''Bob''"] by simp_all
  have n: "normalizeName (lockClassName (LockInfo ''Alice'' (99/100) 0))
             \<noteq> normalizeName (lockClassName (LockInfo ''Bob'' (99/100) 0))
           \<or> normalizeName (lockClassName (LockInfo ''Alice'' (99/100) 0)) = []"
    by (simp add: name_eval)
  have e: "loadOk ?env" "cameraError ?env = None" by (simp_all add: exEnv_def)
  from mismatch_clears_second_lock[OF r l(1,2) n, of ?env]
  obtain sc d' where f: "demoIdScanner ?d = Some sc"
      "handle ?d (CheckVerify ?env) = Returned d'"
      "alerts d' = alerts ?d @ [''Mismatch! Please rescan ID.'']"
      "lockedId d' = None" "lockedFace d' = Some (LockInfo ''Alice'' (99/100) 0)"
      "demoIdScanner d' = Some (started sc ?env)"
      "(model sc \<noteq> None \<or> loadOk ?env) \<and> cameraError ?env = None
         \<longrightarrow> isRunning (started sc ?env) \<and> \<not> locked (started sc ?env)"
    by blast
  have "isRunning (started sc ?env)" using f(7) e by simp
  moreover have "alerts d' = [''Mismatch! Please rescan ID.'']" using f(3) l(3) by simp
  ultimately show ?thesis using l(1,2) f(1,2,4,5,6) by blast
qed

text \<open>
  Claim C8. Two runs of the ID scan-again handler while no face is locked. Right after
  the demo flow has started, there is no ID scanner yet: the handler changes the ID badge
  and the status line and then raises a \<^verbatim>\<open>TypeError\<close>. In a second demo flow entered
  after a completed first one (back, then demo again), the scan-again button of the ID
  step is still shown and the ID scanner of the first flow, stopped, still exists: the
  handler starts it again, although no face is locked.
\<close>

theorem rescan_second_before_first_lock:
  "lockedFace (handleAll pageLoaded [BtnDemo (exEnv (oneClass ''Alice'' (99/100) 0))]) = None
   \<and> demoIdScanner (handleAll pageLoaded [BtnDemo (exEnv (oneClass ''Alice'' (99/100) 0))]) = None
   \<and> handle (handleAll pageLoaded [BtnDemo (exEnv (oneClass ''Alice'' (99/100) 0))])
        (IdScanAgain (exEnv (oneClass ''Bob'' (99/100) 0)))
      = Raised TypeError
          ((handleAll pageLoaded [BtnDemo (exEnv (oneClass ''Alice'' (99/100) 0))])
             \<lparr>badgeId := Active, verifyStatus := ''Rescanning ID...''\<rparr>)
   \<and> lockedFace (handleAll (exFlow ''Alice'' ''Alice'')
                    [DemoBack, BtnDemo (exEnv (oneClass ''Alice'' (99/100) 0))]) = None
   \<and> idScanAgainShown (handleAll (exFlow ''Alice'' ''Alice'')
                    [DemoBack, BtnDemo (exEnv (oneClass ''Alice'' (99/100) 0))])
   \<and> map_option isRunning
         (demoIdScanner (handleAll (exFlow ''Alice'' ''Alice'')
                    [DemoBack, BtnDemo (exEnv (oneClass ''Alice'' (99/100) 0))])) = Some False
   \<and> map_option isRunning
         (demoIdScanner (handleAll (exFlow ''Alice'' ''Alice'')
                    [DemoBack, BtnDemo (exEnv (oneClass ''Alice'' (99/100) 0)),
                     IdScanAgain (exEnv (oneClass ''Bob'' (99/100) 0))])) = Some True"
  by (simp add: demo_eval scanner_eval)

end
